theory Spec2Isabelle
  imports Complex_Main "HOL-Library.Word"
begin

unbundle bit_operations_syntax

section \<open>Machine types\<close>

text \<open>
  The target is a 64-bit little-endian Linux (Raspberry Pi OS, aarch64):
  \<^verbatim>\<open>size_t\<close> and \<^verbatim>\<open>uint64_t\<close> are 64-bit words, \<^verbatim>\<open>uint32_t\<close> is a 32-bit word,
  \<^verbatim>\<open>uint16_t\<close> and \<^verbatim>\<open>int16_t\<close> are 16-bit words (the latter read with \<open>sint\<close>). Word
  arithmetic wraps as the C++ unsigned arithmetic does. A C++ \<^verbatim>\<open>int\<close> that the code
  only stores and compares is an \<open>int\<close>; its one conversion,
  \<^verbatim>\<open>static_cast<size_t>\<close>, is \<open>word_of_int\<close>.
\<close>

type_synonym size_t = "64 word"
type_synonym uint64_t = "64 word"
type_synonym uint32_t = "32 word"
type_synonym uint16_t = "16 word"
type_synonym int16_t = "16 word"
type_synonym byte = "8 word"

text \<open>
  A \<^verbatim>\<open>float\<close> value where the code compares, clamps and converts it: a finite value
  (a real number), an infinity or a NaN. The comparison \<^verbatim>\<open><\<close> is IEEE-754's: false as
  soon as one side is a NaN.
\<close>

datatype cfloat = Finite real | PlusInf | MinusInf | NaN

fun float_less :: "cfloat \<Rightarrow> cfloat \<Rightarrow> bool" where
  "float_less NaN _ = False"
| "float_less _ NaN = False"
| "float_less (Finite a) (Finite b) = (a < b)"
| "float_less (Finite a) PlusInf = True"
| "float_less (Finite a) MinusInf = False"
| "float_less PlusInf _ = False"
| "float_less MinusInf (Finite b) = True"
| "float_less MinusInf PlusInf = True"
| "float_less MinusInf MinusInf = False"

text \<open>\<^verbatim>\<open>std::min(a, b)\<close> is \<^verbatim>\<open>(b < a) ? b : a\<close> and \<^verbatim>\<open>std::max(a, b)\<close> is
  \<^verbatim>\<open>(a < b) ? b : a\<close> (C++ standard, [alg.min.max]).\<close>

definition std_min :: "cfloat \<Rightarrow> cfloat \<Rightarrow> cfloat" where
  "std_min a b = (if float_less b a then b else a)"

definition std_max :: "cfloat \<Rightarrow> cfloat \<Rightarrow> cfloat" where
  "std_max a b = (if float_less a b then b else a)"

text \<open>The product of two floats. \<open>rnd\<close> is the rounding of the exact product to a
  binary32 value, a parameter; the sign rules for infinities and NaN for
  \<open>0 \<times> \<infinity>\<close> are IEEE-754's. (A finite product too large for binary32 would round
  to an infinity; the code multiplies values of magnitude at most 1 by 32767.)\<close>

fun float_mul :: "(real \<Rightarrow> real) \<Rightarrow> cfloat \<Rightarrow> cfloat \<Rightarrow> cfloat" where
  "float_mul rnd (Finite a) (Finite b) = Finite (rnd (a * b))"
| "float_mul rnd NaN _ = NaN"
| "float_mul rnd _ NaN = NaN"
| "float_mul rnd (Finite a) PlusInf = (if a = 0 then NaN else if 0 < a then PlusInf else MinusInf)"
| "float_mul rnd (Finite a) MinusInf = (if a = 0 then NaN else if 0 < a then MinusInf else PlusInf)"
| "float_mul rnd PlusInf (Finite b) = (if b = 0 then NaN else if 0 < b then PlusInf else MinusInf)"
| "float_mul rnd MinusInf (Finite b) = (if b = 0 then NaN else if 0 < b then MinusInf else PlusInf)"
| "float_mul rnd PlusInf PlusInf = PlusInf"
| "float_mul rnd PlusInf MinusInf = MinusInf"
| "float_mul rnd MinusInf PlusInf = MinusInf"
| "float_mul rnd MinusInf MinusInf = PlusInf"

text \<open>What the properties below need of the rounding: it is monotone and leaves
  32767 and -32767, which are binary32 values, as they are. Rounding to nearest is
  such a function, and so is the identity (exact arithmetic).\<close>

definition rounding :: "(real \<Rightarrow> real) \<Rightarrow> bool" where
  "rounding rnd = ((\<forall>x y. x \<le> y \<longrightarrow> rnd x \<le> rnd y) \<and> rnd 32767 = 32767 \<and> rnd (- 32767) = - 32767)"

text \<open>\<^verbatim>\<open>memcpy(dst, src, n * sizeof(float))\<close> on buffers of floats: the first \<open>n\<close>
  elements of \<open>dst\<close> become those of \<open>src\<close>. Both buffers hold at least \<open>n\<close> elements
  (anything else is undefined behaviour in C++).\<close>

definition memcpy :: "'a list \<Rightarrow> 'a list \<Rightarrow> nat \<Rightarrow> 'a list" where
  "memcpy dst src n = take n src @ drop n dst"

text \<open>\<^verbatim>\<open>memset(&dst[i], 0, n * sizeof(float))\<close>: \<open>n\<close> elements from index \<open>i\<close> become
  the float whose bytes are all zero, that is \<open>+0.0\<close>.\<close>

definition memset_zero :: "'a::zero list \<Rightarrow> nat \<Rightarrow> nat \<Rightarrow> 'a list" where
  "memset_zero dst i n = take i dst @ replicate n 0 @ drop (i + n) dst"

section \<open>Floating-point arithmetic\<close>

text \<open>
  Where the code computes with floats, the arithmetic is IEEE-754's. A finite value
  of either format is the real number it denotes, so a \<^verbatim>\<open>double\<close> has the same shape
  as a \<^verbatim>\<open>float\<close>, and the conversion of a \<^verbatim>\<open>float\<close> to \<^verbatim>\<open>double\<close>, which is exact, is
  not written.
\<close>

type_synonym cdouble = cfloat

text \<open>Rounding to the nearest integer, a tie going to the even one.\<close>

definition round_half_even :: "real \<Rightarrow> int" where
  "round_half_even x =
     (let n = \<lfloor>x\<rfloor>; d = x - of_int n
      in if d < 1 / 2 then n else if 1 / 2 < d then n + 1 else if even n then n else n + 1)"

text \<open>
  \<open>round_ieee p emin emax x\<close> is the value of the format with \<open>p\<close> significand bits
  and exponents from \<open>emin\<close> to \<open>emax\<close> that is nearest to the real number \<open>x\<close>, a
  tie going to the even significand (the default rounding mode, which the program
  never changes). With \<open>2^e \<le> |x| < 2^(e+1)\<close>, the values of the format near \<open>x\<close> are
  the multiples of \<open>2^(e-p+1)\<close>; below \<open>2^emin\<close> they are the multiples of
  \<open>2^(emin-p+1)\<close> (the subnormal numbers); a rounded magnitude of \<open>2^(emax+1)\<close> or
  more is an infinity. \<^verbatim>\<open>float\<close> is binary32 and \<^verbatim>\<open>double\<close> is binary64. The sign of
  a zero is not represented.
\<close>

definition round_ieee :: "nat \<Rightarrow> int \<Rightarrow> int \<Rightarrow> real \<Rightarrow> cfloat" where
  "round_ieee p emin emax x =
     (if x = 0 then Finite 0
      else let q = max \<lfloor>log 2 \<bar>x\<bar>\<rfloor> emin - (int p - 1);
               y = of_int (round_half_even (x / 2 powr of_int q)) * 2 powr of_int q
           in if 2 powr of_int (emax + 1) \<le> \<bar>y\<bar> then (if 0 < x then PlusInf else MinusInf)
              else Finite y)"

definition binary32 :: "real \<Rightarrow> cfloat" where
  "binary32 = round_ieee 24 (- 126) 127"

definition binary64 :: "real \<Rightarrow> cdouble" where
  "binary64 = round_ieee 53 (- 1022) 1023"

text \<open>The four operations, each the exact result rounded by \<open>rnd\<close> into the format of
  the operands, with IEEE-754's rules for infinities and NaN. A zero divisor is
  taken as \<open>+0\<close>: the one division of the code divides by a converted integer, whose
  zero is \<open>+0\<close>. (\<open>float_mul\<close> above is this product with the rounding of finite
  results left as a parameter.)\<close>

fun ieee_add :: "(real \<Rightarrow> cfloat) \<Rightarrow> cfloat \<Rightarrow> cfloat \<Rightarrow> cfloat" where
  "ieee_add rnd (Finite a) (Finite b) = rnd (a + b)"
| "ieee_add rnd NaN _ = NaN"
| "ieee_add rnd _ NaN = NaN"
| "ieee_add rnd PlusInf MinusInf = NaN"
| "ieee_add rnd MinusInf PlusInf = NaN"
| "ieee_add rnd PlusInf _ = PlusInf"
| "ieee_add rnd MinusInf _ = MinusInf"
| "ieee_add rnd (Finite a) PlusInf = PlusInf"
| "ieee_add rnd (Finite a) MinusInf = MinusInf"

fun ieee_sub :: "(real \<Rightarrow> cfloat) \<Rightarrow> cfloat \<Rightarrow> cfloat \<Rightarrow> cfloat" where
  "ieee_sub rnd (Finite a) (Finite b) = rnd (a - b)"
| "ieee_sub rnd NaN _ = NaN"
| "ieee_sub rnd _ NaN = NaN"
| "ieee_sub rnd PlusInf PlusInf = NaN"
| "ieee_sub rnd MinusInf MinusInf = NaN"
| "ieee_sub rnd PlusInf _ = PlusInf"
| "ieee_sub rnd MinusInf _ = MinusInf"
| "ieee_sub rnd (Finite a) PlusInf = MinusInf"
| "ieee_sub rnd (Finite a) MinusInf = PlusInf"

fun ieee_mul :: "(real \<Rightarrow> cfloat) \<Rightarrow> cfloat \<Rightarrow> cfloat \<Rightarrow> cfloat" where
  "ieee_mul rnd (Finite a) (Finite b) = rnd (a * b)"
| "ieee_mul rnd NaN _ = NaN"
| "ieee_mul rnd _ NaN = NaN"
| "ieee_mul rnd (Finite a) PlusInf = (if a = 0 then NaN else if 0 < a then PlusInf else MinusInf)"
| "ieee_mul rnd (Finite a) MinusInf = (if a = 0 then NaN else if 0 < a then MinusInf else PlusInf)"
| "ieee_mul rnd PlusInf (Finite b) = (if b = 0 then NaN else if 0 < b then PlusInf else MinusInf)"
| "ieee_mul rnd MinusInf (Finite b) = (if b = 0 then NaN else if 0 < b then MinusInf else PlusInf)"
| "ieee_mul rnd PlusInf PlusInf = PlusInf"
| "ieee_mul rnd PlusInf MinusInf = MinusInf"
| "ieee_mul rnd MinusInf PlusInf = MinusInf"
| "ieee_mul rnd MinusInf MinusInf = PlusInf"

fun ieee_div :: "(real \<Rightarrow> cfloat) \<Rightarrow> cfloat \<Rightarrow> cfloat \<Rightarrow> cfloat" where
  "ieee_div rnd (Finite a) (Finite b) =
     (if b = 0 then (if a = 0 then NaN else if 0 < a then PlusInf else MinusInf)
      else rnd (a / b))"
| "ieee_div rnd NaN _ = NaN"
| "ieee_div rnd _ NaN = NaN"
| "ieee_div rnd (Finite a) PlusInf = Finite 0"
| "ieee_div rnd (Finite a) MinusInf = Finite 0"
| "ieee_div rnd PlusInf (Finite b) = (if 0 \<le> b then PlusInf else MinusInf)"
| "ieee_div rnd MinusInf (Finite b) = (if 0 \<le> b then MinusInf else PlusInf)"
| "ieee_div rnd PlusInf _ = NaN"
| "ieee_div rnd MinusInf _ = NaN"

text \<open>The operators of C++ on two \<^verbatim>\<open>float\<close> operands: \<open>0\<close>, \<open>+\<close>, \<open>-\<close> and \<open>*\<close> on
  \<open>cfloat\<close> are those of binary32, each operation rounded on its own.\<close>

instantiation cfloat :: "{zero,plus,minus,times}"
begin

definition zero_cfloat_def: "0 = Finite 0"

definition plus_cfloat_def: "a + b = ieee_add binary32 a b"

definition minus_cfloat_def: "a - b = ieee_sub binary32 a b"

definition times_cfloat_def: "a * b = ieee_mul binary32 a b"

instance ..

end

text \<open>The conversions: a \<^verbatim>\<open>double\<close> stored into a \<^verbatim>\<open>float\<close>, and
  \<^verbatim>\<open>static_cast<float>\<close> of an \<^verbatim>\<open>int\<close>.\<close>

fun double_to_float :: "cdouble \<Rightarrow> cfloat" where
  "double_to_float (Finite x) = binary32 x"
| "double_to_float PlusInf = PlusInf"
| "double_to_float MinusInf = MinusInf"
| "double_to_float NaN = NaN"

definition static_cast_float :: "int \<Rightarrow> cfloat" where
  "static_cast_float n = binary32 (of_int n)"

section \<open>DCBlocker (DCBlocker.h, DCBlocker.cpp)\<close>

text \<open>
  The filter adds, subtracts and multiplies floats. \<open>process\<close> and \<open>reset\<close> are
  modelled for any type with these operations and a zero, whatever their rounding;
  \<open>cfloat\<close> is such a type.

  The constructor evaluates \<^verbatim>\<open>1.0f - (2.0f * M_PI * fc / fs)\<close>. \<^verbatim>\<open>M_PI\<close> is a \<^verbatim>\<open>double\<close>,
  the one nearest to the decimal literal (\<^verbatim>\<open>3.14159265358979323846\<close> in the source
  and in \<^verbatim>\<open><cmath>\<close>), so by the usual arithmetic conversions every operation of the
  expression is a \<^verbatim>\<open>double\<close> operation, from left to right, and the result is rounded
  to binary32 when it is stored in the \<^verbatim>\<open>float\<close> member. \<^verbatim>\<open>fs\<close> is the sample rate
  converted to \<^verbatim>\<open>float\<close>.
\<close>

record 'a DCBlocker =
  m_x1 :: 'a
  m_y1 :: 'a
  m_coefficient :: 'a

definition DC_BLOCK_FREQ :: cfloat where
  "DC_BLOCK_FREQ = Finite 10"

definition M_PI :: cdouble where
  "M_PI = binary64 3.14159265358979323846"

definition DCBlocker_reset :: "'a::zero DCBlocker \<Rightarrow> 'a DCBlocker" where
  "DCBlocker_reset d = d\<lparr>m_x1 := 0, m_y1 := 0\<rparr>"

definition DCBlocker_new :: "int \<Rightarrow> cfloat DCBlocker" where
  "DCBlocker_new sampleRate =
     (let fc = DC_BLOCK_FREQ;
          fs = static_cast_float sampleRate;
          coefficient = double_to_float
            (ieee_sub binary64 (Finite 1)
               (ieee_div binary64 (ieee_mul binary64 (ieee_mul binary64 (Finite 2) M_PI) fc) fs))
      in DCBlocker_reset \<lparr>m_x1 = 0, m_y1 = 0, m_coefficient = coefficient\<rparr>)"

text \<open>The loop \<^verbatim>\<open>for (size_t i = 0; i < numSamples; ++i)\<close>: \<open>k\<close> iterations remain
  and \<open>i\<close> is the index of the next one.\<close>

fun DCBlocker_process_loop ::
  "nat \<Rightarrow> nat \<Rightarrow> 'a::{plus,minus,times} DCBlocker \<Rightarrow> 'a list \<Rightarrow> 'a DCBlocker \<times> 'a list" where
  "DCBlocker_process_loop 0 i d buffer = (d, buffer)"
| "DCBlocker_process_loop (Suc k) i d buffer =
     (let input = buffer ! i;
          output = input - m_x1 d + m_coefficient d * m_y1 d
      in DCBlocker_process_loop k (Suc i)
           (d\<lparr>m_x1 := input, m_y1 := output\<rparr>) (buffer[i := output]))"

definition DCBlocker_process ::
  "'a::{plus,minus,times} DCBlocker \<Rightarrow> 'a list \<Rightarrow> nat \<Rightarrow> 'a DCBlocker \<times> 'a list" where
  "DCBlocker_process d buffer numSamples = DCBlocker_process_loop numSamples 0 d buffer"

section \<open>AudioRecorder (AudioRecorder.h)\<close>

text \<open>
  The recorder's members. The ring buffer \<^verbatim>\<open>float m_ringBuffer[RING_BUFFER_SIZE]\<close> is a
  store from indices to samples (only the indices below \<open>RING_BUFFER_SIZE\<close> exist in the
  code); the samples are only copied, so their type is left open. \<open>m_writerThread\<close>
  tells whether the recorder holds a writer thread, \<open>m_recordingStartTime\<close> is a reading
  of the steady clock.
\<close>

definition RING_BUFFER_SIZE :: size_t where
  "RING_BUFFER_SIZE = 960000"

definition BATCH_SIZE :: size_t where
  "BATCH_SIZE = 32768"

record 'a AudioRecorder =
  m_recordingsDir :: string
  m_currentFilePath :: string
  rec_m_sampleRate :: int
  m_ringBuffer :: "size_t \<Rightarrow> 'a"
  m_writePos :: size_t
  m_readPos :: size_t
  m_recording :: bool
  m_droppedFrames :: uint64_t
  m_writerThread :: bool
  m_recordingStartTime :: nat

text \<open>\<open>startRecording\<close>: \<open>stamp\<close> is the name \<^verbatim>\<open>strftime\<close> produces from the wall clock
  and \<open>now\<close> the steady clock's reading, both read from the environment.\<close>

definition startRecording ::
  "string \<Rightarrow> nat \<Rightarrow> string \<Rightarrow> int \<Rightarrow> 'a AudioRecorder \<Rightarrow> 'a AudioRecorder \<times> string" where
  "startRecording stamp now filename sampleRate r =
     (if m_recording r then (r, [])
      else
        let actualFilename =
              (if filename = [] then stamp
               else if length filename < 4 \<or> drop (length filename - 4) filename \<noteq> ''.wav''
                    then filename @ ''.wav'' else filename);
            path = m_recordingsDir r @ ''/'' @ actualFilename
        in (r\<lparr>m_currentFilePath := path,
               rec_m_sampleRate := sampleRate,
               m_writePos := 0,
               m_readPos := 0,
               m_droppedFrames := 0,
               m_recordingStartTime := now,
               m_recording := True,
               m_writerThread := True\<rparr>, path))"

definition isRecording :: "'a AudioRecorder \<Rightarrow> bool" where
  "isRecording r = m_recording r"

definition getCurrentFilePath :: "'a AudioRecorder \<Rightarrow> string" where
  "getCurrentFilePath r = m_currentFilePath r"

definition getDroppedFrames :: "'a AudioRecorder \<Rightarrow> uint64_t" where
  "getDroppedFrames r = m_droppedFrames r"

text \<open>The space the producer computes (\<open>available\<close> in \<open>pushAudioFrame\<close>), in
  \<^verbatim>\<open>size_t\<close> arithmetic.\<close>

definition push_available :: "size_t \<Rightarrow> size_t \<Rightarrow> size_t" where
  "push_available writePos readPos =
     (if readPos \<le> writePos then RING_BUFFER_SIZE - writePos + readPos - 1
      else readPos - writePos - 1)"

text \<open>The loop that writes the interleaved frames: \<open>k\<close> iterations remain, \<open>i\<close> is the
  index of the next frame.\<close>

fun push_loop ::
  "nat \<Rightarrow> nat \<Rightarrow> 'a list \<Rightarrow> 'a list \<Rightarrow> (size_t \<Rightarrow> 'a) \<Rightarrow> size_t \<Rightarrow> (size_t \<Rightarrow> 'a) \<times> size_t" where
  "push_loop 0 i left right buf writePos = (buf, writePos)"
| "push_loop (Suc k) i left right buf writePos =
     (let buf1 = buf(writePos := left ! i);
          writePos1 = (writePos + 1) mod RING_BUFFER_SIZE;
          buf2 = buf1(writePos1 := right ! i);
          writePos2 = (writePos1 + 1) mod RING_BUFFER_SIZE
      in push_loop k (Suc i) left right buf2 writePos2)"

definition pushAudioFrame ::
  "'a list \<Rightarrow> 'a list \<Rightarrow> size_t \<Rightarrow> 'a AudioRecorder \<Rightarrow> 'a AudioRecorder" where
  "pushAudioFrame left right numSamples r =
     (if \<not> m_recording r then r
      else
        let writePos = m_writePos r;
            readPos = m_readPos r;
            required = numSamples * 2;
            available = push_available writePos readPos
        in if available < required
           then r\<lparr>m_droppedFrames := m_droppedFrames r + numSamples\<rparr>
           else
             let res = push_loop (unat numSamples) 0 left right (m_ringBuffer r) writePos
             in r\<lparr>m_ringBuffer := fst res, m_writePos := snd res\<rparr>)"

text \<open>The number of unread samples the writer thread computes (\<open>available\<close> in
  \<open>writerThreadFunc\<close>).\<close>

definition writer_available :: "size_t \<Rightarrow> size_t \<Rightarrow> size_t" where
  "writer_available writePos readPos =
     (if writePos \<ge> readPos then writePos - readPos
      else RING_BUFFER_SIZE - readPos + writePos)"

text \<open>One round of the writer thread's loop: on a non-empty ring it copies
  \<open>min(available, BATCH_SIZE)\<close> samples into its batch and publishes the new read
  position. The result is the recorder and the batch handed to the WAV writer.\<close>

fun read_loop :: "nat \<Rightarrow> (size_t \<Rightarrow> 'a) \<Rightarrow> size_t \<Rightarrow> 'a list \<Rightarrow> 'a list \<times> size_t" where
  "read_loop 0 buf readPos batch = (batch, readPos)"
| "read_loop (Suc k) buf readPos batch =
     read_loop k buf ((readPos + 1) mod RING_BUFFER_SIZE) (batch @ [buf readPos])"

definition writer_round :: "'a AudioRecorder \<Rightarrow> 'a AudioRecorder \<times> 'a list" where
  "writer_round r =
     (let readPos = m_readPos r;
          writePos = m_writePos r;
          available = writer_available writePos readPos
      in if available = 0 then (r, [])
         else
           let toRead = min available BATCH_SIZE;
               res = read_loop (unat toRead) (m_ringBuffer r) readPos []
           in (r\<lparr>m_readPos := snd res\<rparr>, fst res))"

text \<open>The ring's full and empty states, the positions the code keeps inside the array,
  and the number of unread samples.\<close>

definition ring_full :: "'a AudioRecorder \<Rightarrow> bool" where
  "ring_full r = ((m_writePos r + 1) mod RING_BUFFER_SIZE = m_readPos r)"

definition ring_empty :: "'a AudioRecorder \<Rightarrow> bool" where
  "ring_empty r = (m_writePos r = m_readPos r)"

definition ring_inv :: "'a AudioRecorder \<Rightarrow> bool" where
  "ring_inv r = (m_writePos r < RING_BUFFER_SIZE \<and> m_readPos r < RING_BUFFER_SIZE)"

definition ring_used :: "'a AudioRecorder \<Rightarrow> nat" where
  "ring_used r = unat (writer_available (m_writePos r) (m_readPos r))"

fun is_power_of_two :: "nat \<Rightarrow> bool" where
  "is_power_of_two n =
     (if n \<le> 1 then n = 1 else n mod 2 = 0 \<and> is_power_of_two (n div 2))"

section \<open>WAVWriter (WAVWriter.h)\<close>

text \<open>
  The \<^verbatim>\<open>std::ofstream\<close> the writer owns: whether it is open, the bytes of the file and
  the put position. A write at the put position overwrites the bytes it covers and
  extends the file past its end. Failing writes (a full disk) are not modelled.
\<close>

record ofstream =
  is_open :: bool
  contents :: "byte list"
  put_pos :: nat

definition ofstream_write :: "byte list \<Rightarrow> ofstream \<Rightarrow> ofstream" where
  "ofstream_write bs f =
     f\<lparr>contents := take (put_pos f) (contents f) @ bs @ drop (put_pos f + length bs) (contents f),
       put_pos := put_pos f + length bs\<rparr>"

definition seekp :: "nat \<Rightarrow> ofstream \<Rightarrow> ofstream" where
  "seekp p f = f\<lparr>put_pos := p\<rparr>"

text \<open>\<^verbatim>\<open>m_file.open(path, std::ios::binary)\<close> on a closed stream: \<open>ok\<close> tells whether
  the system opens the file, which then starts empty.\<close>

definition ofstream_open :: "bool \<Rightarrow> ofstream \<Rightarrow> ofstream" where
  "ofstream_open ok f =
     (if ok then \<lparr>is_open = True, contents = [], put_pos = 0\<rparr> else f\<lparr>is_open := False\<rparr>)"

definition ofstream_close :: "ofstream \<Rightarrow> ofstream" where
  "ofstream_close f = f\<lparr>is_open := False\<rparr>"

text \<open>The bytes of an object as \<^verbatim>\<open>reinterpret_cast<const char*>\<close> reads them on a
  little-endian machine, and the value four such bytes stand for.\<close>

definition le_bytes16 :: "16 word \<Rightarrow> byte list" where
  "le_bytes16 w = [ucast w, ucast (drop_bit 8 w)]"

definition le_bytes32 :: "32 word \<Rightarrow> byte list" where
  "le_bytes32 w = [ucast w, ucast (drop_bit 8 w), ucast (drop_bit 16 w), ucast (drop_bit 24 w)]"

definition le_value :: "byte list \<Rightarrow> nat" where
  "le_value bs = foldr (\<lambda>b v. unat b + 256 * v) bs 0"

definition ascii :: "string \<Rightarrow> byte list" where
  "ascii s = map of_char s"

record WAVWriter =
  m_file :: ofstream
  wav_m_sampleRate :: uint32_t
  m_numChannels :: uint16_t
  m_dataSize :: uint32_t

definition writeHeader :: "WAVWriter \<Rightarrow> WAVWriter" where
  "writeHeader w =
     (let bitsPerSample = (16 :: uint16_t);
          blockAlign = (m_numChannels w * (bitsPerSample div 8) :: uint16_t);
          byteRate = (wav_m_sampleRate w * ucast blockAlign :: uint32_t);
          chunkSize = (36 + m_dataSize w :: uint32_t);
          fmtSize = (16 :: uint32_t);
          audioFormat = (1 :: uint16_t)
      in w\<lparr>m_file :=
           foldl (\<lambda>f bs. ofstream_write bs f) (m_file w)
             [ascii ''RIFF'', le_bytes32 chunkSize, ascii ''WAVE'',
              ascii ''fmt '', le_bytes32 fmtSize,
              le_bytes16 audioFormat, le_bytes16 (m_numChannels w),
              le_bytes32 (wav_m_sampleRate w), le_bytes32 byteRate,
              le_bytes16 blockAlign, le_bytes16 bitsPerSample,
              ascii ''data'', le_bytes32 (m_dataSize w)]\<rparr>)"

definition WAVWriter_close :: "WAVWriter \<Rightarrow> WAVWriter" where
  "WAVWriter_close w =
     (if \<not> is_open (m_file w) then w
      else
        let w1 = w\<lparr>m_file := seekp 0 (m_file w)\<rparr>;
            w2 = writeHeader w1
        in w2\<lparr>m_file := ofstream_close (m_file w2), m_dataSize := 0\<rparr>)"

definition WAVWriter_open :: "bool \<Rightarrow> uint32_t \<Rightarrow> uint16_t \<Rightarrow> WAVWriter \<Rightarrow> WAVWriter \<times> bool" where
  "WAVWriter_open ok sampleRate numChannels w =
     (let w1 = (if is_open (m_file w) then WAVWriter_close w else w);
          w2 = w1\<lparr>m_file := ofstream_open ok (m_file w1)\<rparr>
      in if \<not> is_open (m_file w2) then (w2, False)
         else (writeHeader (w2\<lparr>wav_m_sampleRate := sampleRate,
                                m_numChannels := numChannels,
                                m_dataSize := 0\<rparr>), True))"

text \<open>\<^verbatim>\<open>static_cast<int16_t>\<close> of a float truncates towards zero. The cast is undefined
  in C++ for a value outside the range of \<^verbatim>\<open>int16_t\<close>, an infinity or a NaN; the
  writer only casts finite values of magnitude at most 32767 (lemma
  \<open>pcm_of_sample_range\<close>).\<close>

definition trunc_toward_zero :: "real \<Rightarrow> int" where
  "trunc_toward_zero x = (if 0 \<le> x then \<lfloor>x\<rfloor> else \<lceil>x\<rceil>)"

fun static_cast_int16 :: "cfloat \<Rightarrow> int16_t" where
  "static_cast_int16 (Finite x) = word_of_int (trunc_toward_zero x)"
| "static_cast_int16 _ = 0"

text \<open>The body of the loop of \<open>WAVWriter::write\<close>: the clamped sample and its PCM value.\<close>

definition clamp_sample :: "cfloat \<Rightarrow> cfloat" where
  "clamp_sample x = std_max (Finite (- 1)) (std_min (Finite 1) x)"

definition pcm_of_sample :: "(real \<Rightarrow> real) \<Rightarrow> cfloat \<Rightarrow> int16_t" where
  "pcm_of_sample rnd x =
     (let sample = clamp_sample x
      in static_cast_int16 (float_mul rnd sample (Finite 32767)))"

fun write_loop :: "(real \<Rightarrow> real) \<Rightarrow> nat \<Rightarrow> nat \<Rightarrow> cfloat list \<Rightarrow> ofstream \<Rightarrow> ofstream" where
  "write_loop rnd 0 i data f = f"
| "write_loop rnd (Suc k) i data f =
     (let pcm = pcm_of_sample rnd (data ! i)
      in write_loop rnd k (Suc i) data (ofstream_write (le_bytes16 pcm) f))"

definition WAVWriter_write :: "(real \<Rightarrow> real) \<Rightarrow> cfloat list \<Rightarrow> size_t \<Rightarrow> WAVWriter \<Rightarrow> WAVWriter" where
  "WAVWriter_write rnd data numFrames w =
     (if \<not> is_open (m_file w) then w
      else
        let totalSamples = (numFrames * ucast (m_numChannels w) :: size_t)
        in w\<lparr>m_file := write_loop rnd (unat totalSamples) 0 data (m_file w),
             m_dataSize := ucast (ucast (m_dataSize w) + totalSamples * 2 :: size_t)\<rparr>)"

definition getDataSize :: "WAVWriter \<Rightarrow> uint32_t" where
  "getDataSize w = m_dataSize w"

text \<open>A recording session of the writer: open, the batches written in order, close.
  A batch is the buffer handed to \<open>write\<close> and its frame count.\<close>

definition write_all :: "(real \<Rightarrow> real) \<Rightarrow> (cfloat list \<times> size_t) list \<Rightarrow> WAVWriter \<Rightarrow> WAVWriter" where
  "write_all rnd batches w = foldl (\<lambda>w b. WAVWriter_write rnd (fst b) (snd b) w) w batches"

definition wav_session ::
  "(real \<Rightarrow> real) \<Rightarrow> uint32_t \<Rightarrow> uint16_t \<Rightarrow> (cfloat list \<times> size_t) list \<Rightarrow> WAVWriter \<Rightarrow> WAVWriter" where
  "wav_session rnd sampleRate numChannels batches w =
     WAVWriter_close (write_all rnd batches (fst (WAVWriter_open True sampleRate numChannels w)))"

text \<open>What the session was asked to write: the samples of every batch, in order, and
  the PCM bytes they convert to.\<close>

definition batch_samples :: "uint16_t \<Rightarrow> cfloat list \<times> size_t \<Rightarrow> cfloat list" where
  "batch_samples numChannels b =
     map (\<lambda>i. fst b ! i) [0 ..< unat (snd b * ucast numChannels :: size_t)]"

definition session_samples :: "uint16_t \<Rightarrow> (cfloat list \<times> size_t) list \<Rightarrow> cfloat list" where
  "session_samples numChannels batches = concat (map (batch_samples numChannels) batches)"

definition pcm_bytes :: "(real \<Rightarrow> real) \<Rightarrow> cfloat list \<Rightarrow> byte list" where
  "pcm_bytes rnd xs = concat (map (\<lambda>x. le_bytes16 (pcm_of_sample rnd x)) xs)"

definition riff_chunk_size :: "byte list \<Rightarrow> nat" where
  "riff_chunk_size file = le_value (take 4 (drop 4 file))"

definition data_chunk_size :: "byte list \<Rightarrow> nat" where
  "data_chunk_size file = le_value (take 4 (drop 40 file))"

text \<open>A default-constructed writer (\<^verbatim>\<open>WAVWriter() = default\<close>).\<close>

definition WAVWriter_new :: WAVWriter where
  "WAVWriter_new =
     \<lparr>m_file = \<lparr>is_open = False, contents = [], put_pos = 0\<rparr>,
      wav_m_sampleRate = 0, m_numChannels = 0, m_dataSize = 0\<rparr>"

text \<open>The 44 bytes \<open>writeHeader\<close> produces, as one block.\<close>

definition header_bytes :: "WAVWriter \<Rightarrow> byte list" where
  "header_bytes w =
     ascii ''RIFF'' @ le_bytes32 (36 + m_dataSize w) @ ascii ''WAVE'' @
     ascii ''fmt '' @ le_bytes32 16 @ le_bytes16 1 @ le_bytes16 (m_numChannels w) @
     le_bytes32 (wav_m_sampleRate w) @
     le_bytes32 (wav_m_sampleRate w * ucast (m_numChannels w * 2)) @
     le_bytes16 (m_numChannels w * 2) @ le_bytes16 16 @
     ascii ''data'' @ le_bytes32 (m_dataSize w)"

text \<open>The writer's state in a session that has written the samples \<open>xs\<close> so far.\<close>

definition wav_state :: "(real \<Rightarrow> real) \<Rightarrow> uint32_t \<Rightarrow> uint16_t \<Rightarrow> cfloat list \<Rightarrow> WAVWriter \<Rightarrow> bool" where
  "wav_state rnd sr ch xs w =
     (is_open (m_file w) \<and> wav_m_sampleRate w = sr \<and> m_numChannels w = ch \<and>
      m_dataSize w = of_nat (2 * length xs) \<and>
      put_pos (m_file w) = length (contents (m_file w)) \<and>
      length (contents (m_file w)) = 44 + 2 * length xs \<and>
      drop 44 (contents (m_file w)) = pcm_bytes rnd xs)"

text \<open>A recorder in the middle of a recording, used as a concrete instance.\<close>

definition rec_example :: "int AudioRecorder" where
  "rec_example =
     \<lparr>m_recordingsDir = ''./recordings'',
      m_currentFilePath = ''./recordings/take.wav'',
      rec_m_sampleRate = 48000,
      m_ringBuffer = (\<lambda>_. 0),
      m_writePos = 959998,
      m_readPos = 4,
      m_recording = True,
      m_droppedFrames = 7,
      m_writerThread = True,
      m_recordingStartTime = 100\<rparr>"

section \<open>BackingTrack (BackingTrack.h, BackingTrack.cpp)\<close>

text \<open>
  The player's members (the source's names end in an underscore, which an Isabelle
  name cannot). The samples are multiplied by the volume and set to zero, and nothing
  else: their type is any type with a product and a zero. The frame counts are
  \<^verbatim>\<open>size_t\<close> values; the only arithmetic on them is \<^verbatim>\<open>pos++\<close> below \<open>endFrame\<close> and
  \<^verbatim>\<open>numFrames - i\<close> for \<open>i < numFrames\<close>, neither of which can wrap.
\<close>

record 'a BackingTrack =
  audioDataL :: "'a list"
  audioDataR :: "'a list"
  totalFrames :: nat
  channels :: int
  bt_sampleRate :: int
  playbackPosition :: nat
  isPlaying :: bool
  loopEnabled :: bool
  volume :: 'a
  startFrame :: nat
  stopFrame :: nat
  bt_filename :: string

definition isLoaded :: "'a BackingTrack \<Rightarrow> bool" where
  "isLoaded bt = (totalFrames bt > 0)"

text \<open>The loop of \<open>fillBuffer\<close>: \<open>k\<close> iterations remain, \<open>i\<close> is the index of the next
  one. The result is the player and the two output buffers.\<close>

fun fill_loop ::
  "nat \<Rightarrow> nat \<Rightarrow> nat \<Rightarrow> 'a \<Rightarrow> bool \<Rightarrow> nat \<Rightarrow> nat \<Rightarrow> nat \<Rightarrow>
   'a::{times,zero} BackingTrack \<Rightarrow> 'a list \<Rightarrow> 'a list \<Rightarrow> 'a BackingTrack \<times> 'a list \<times> 'a list" where
  "fill_loop 0 i numFrames vol loop start endFrame pos bt outL outR =
     (bt\<lparr>playbackPosition := pos\<rparr>, outL, outR)"
| "fill_loop (Suc k) i numFrames vol loop start endFrame pos bt outL outR =
     (if pos \<ge> endFrame \<and> \<not> loop
      then (bt\<lparr>isPlaying := False, playbackPosition := start\<rparr>,
            memset_zero outL i (numFrames - i), memset_zero outR i (numFrames - i))
      else
        let pos1 = (if pos \<ge> endFrame then start else pos)
        in fill_loop k (Suc i) numFrames vol loop start endFrame (pos1 + 1) bt
             (outL[i := audioDataL bt ! pos1 * vol])
             (outR[i := audioDataR bt ! pos1 * vol]))"

definition fillBuffer ::
  "'a list \<Rightarrow> 'a list \<Rightarrow> nat \<Rightarrow> 'a::{times,zero} BackingTrack \<Rightarrow> 'a BackingTrack \<times> 'a list \<times> 'a list" where
  "fillBuffer outL outR numFrames bt =
     (if \<not> isPlaying bt \<or> totalFrames bt = 0
      then (bt, memset_zero outL 0 numFrames, memset_zero outR 0 numFrames)
      else
        let vol = volume bt;
            loop = loopEnabled bt;
            start = startFrame bt;
            stop = stopFrame bt;
            endFrame = (if stop > 0 \<and> stop < totalFrames bt then stop else totalFrames bt);
            pos = playbackPosition bt
        in fill_loop numFrames 0 numFrames vol loop start endFrame pos bt outL outR)"

text \<open>What the loaders and \<open>setStartPosition\<close> keep true of a loaded track: both
  channels hold \<open>totalFrames\<close> samples and the start frame is one of them.\<close>

definition track_inv :: "'a BackingTrack \<Rightarrow> bool" where
  "track_inv bt =
     (length (audioDataL bt) = totalFrames bt \<and> length (audioDataR bt) = totalFrames bt \<and>
      (totalFrames bt > 0 \<longrightarrow> startFrame bt < totalFrames bt))"

text \<open>The frame the player stops or wraps at, and the frame cursor of a looping
  player, \<open>loop_cursor bt i\<close> being the frame read for output sample \<open>i\<close>: at the end
  frame (or beyond) the cursor wraps to the start frame, and every sample read advances
  it by one.\<close>

definition end_frame :: "'a BackingTrack \<Rightarrow> nat" where
  "end_frame bt =
     (if stopFrame bt > 0 \<and> stopFrame bt < totalFrames bt then stopFrame bt else totalFrames bt)"

fun cursor_from :: "nat \<Rightarrow> nat \<Rightarrow> nat \<Rightarrow> nat \<Rightarrow> nat" where
  "cursor_from start endFrame pos 0 = (if pos \<ge> endFrame then start else pos)"
| "cursor_from start endFrame pos (Suc i) =
     (let next = cursor_from start endFrame pos i + 1
      in if next \<ge> endFrame then start else next)"

definition loop_cursor :: "'a BackingTrack \<Rightarrow> nat \<Rightarrow> nat" where
  "loop_cursor bt i = cursor_from (startFrame bt) (end_frame bt) (playbackPosition bt) i"

text \<open>A loaded, playing track of three frames, used as a concrete instance.\<close>

definition track_example :: "int BackingTrack" where
  "track_example =
     \<lparr>audioDataL = [10, 20, 30], audioDataR = [11, 21, 31], totalFrames = 3,
      channels = 2, bt_sampleRate = 48000, playbackPosition = 1, isPlaying = True,
      loopEnabled = True, volume = 2, startFrame = 0, stopFrame = 0,
      bt_filename = ''loop.wav''\<rparr>"

section \<open>ModelLoader (ModelLoader.h, ModelLoader.cpp)\<close>

text \<open>
  The neural network library (\<^verbatim>\<open>NeuralAudio::NeuralModel\<close>) is not part of the
  repository: the calls the loader makes are a parameter. \<open>CreateFromFile\<close> answers
  \<open>None\<close> when no model can be constructed from the path (the library returns a null
  pointer or throws, and \<open>doLoadModel\<close> treats both alike); the other calls are taken
  to return. The gains of the loader are modelled on real numbers.
\<close>

record 'm NeuralAudio =
  CreateFromFile :: "string \<Rightarrow> 'm option"
  SetMaxAudioBufferSize :: "int \<Rightarrow> 'm \<Rightarrow> 'm"
  GetSampleRate :: "'m \<Rightarrow> real"
  GetRecommendedOutputDBAdjustment :: "'m \<Rightarrow> real"
  Process :: "'m \<Rightarrow> real list \<Rightarrow> 'm \<times> real list"

datatype FadeState = Idle | FadingOut | FadingIn

definition FADE_SAMPLES :: int where
  "FADE_SAMPLES = 256"

definition PREWARM_SAMPLES :: nat where
  "PREWARM_SAMPLES = 256"

record 'm ModelLoader =
  ml_m_sampleRate :: int
  m_maxBufferSize :: int
  m_model :: "'m option"
  m_modelPath :: string
  m_ready :: bool
  m_doRampDown :: bool
  m_doRampUp :: bool
  m_modelSampleRate :: int
  m_fadeGain :: real
  m_fadeSamplesRemaining :: int
  m_fadeState :: FadeState
  m_normalizationGain :: real
  m_workerRunning :: bool
  m_loadRequested :: bool
  m_pendingModelPath :: string

definition ModelLoader_new :: "int \<Rightarrow> int \<Rightarrow> 'm ModelLoader" where
  "ModelLoader_new sampleRate maxBufferSize =
     \<lparr>ml_m_sampleRate = sampleRate, m_maxBufferSize = maxBufferSize,
      m_model = None, m_modelPath = [], m_ready = False,
      m_doRampDown = False, m_doRampUp = False, m_modelSampleRate = 0,
      m_fadeGain = 0, m_fadeSamplesRemaining = 0, m_fadeState = Idle,
      m_normalizationGain = 1,
      m_workerRunning = True, m_loadRequested = False, m_pendingModelPath = []\<rparr>"

definition ModelLoader_loadModelAsync :: "string \<Rightarrow> 'm ModelLoader \<Rightarrow> 'm ModelLoader" where
  "ModelLoader_loadModelAsync modelPath ml =
     ml\<lparr>m_pendingModelPath := modelPath, m_loadRequested := True\<rparr>"

definition isReady :: "'m ModelLoader \<Rightarrow> bool" where
  "isReady ml = m_ready ml"

definition ModelLoader_getModelPath :: "'m ModelLoader \<Rightarrow> string" where
  "ModelLoader_getModelPath ml = m_modelPath ml"

definition startFadeOut :: "'m ModelLoader \<Rightarrow> 'm ModelLoader" where
  "startFadeOut ml =
     ml\<lparr>m_doRampDown := True, m_fadeState := FadingOut,
        m_fadeSamplesRemaining := FADE_SAMPLES, m_fadeGain := 1\<rparr>"

definition startFadeIn :: "'m ModelLoader \<Rightarrow> 'm ModelLoader" where
  "startFadeIn ml =
     ml\<lparr>m_doRampUp := True, m_fadeState := FadingIn,
        m_fadeSamplesRemaining := FADE_SAMPLES, m_fadeGain := 0\<rparr>"

text \<open>One sample of \<open>applyFade\<close>'s loop, the loop, and \<open>applyFade\<close>.\<close>

definition fade_sample :: "nat \<Rightarrow> 'm ModelLoader \<times> real list \<Rightarrow> 'm ModelLoader \<times> real list" where
  "fade_sample i st =
     (let ml = fst st; buffer = snd st
      in if m_fadeSamplesRemaining ml > 0
         then
           let gain = (if m_fadeState ml = FadingOut
                       then real_of_int (m_fadeSamplesRemaining ml) / real_of_int FADE_SAMPLES
                       else if m_fadeState ml = FadingIn
                       then 1 - real_of_int (m_fadeSamplesRemaining ml) / real_of_int FADE_SAMPLES
                       else m_fadeGain ml);
               ml1 = ml\<lparr>m_fadeGain := gain, m_fadeSamplesRemaining := m_fadeSamplesRemaining ml - 1\<rparr>;
               buffer1 = buffer[i := buffer ! i * gain]
           in if m_fadeSamplesRemaining ml1 = 0
              then
                let ml2 = (if m_fadeState ml1 = FadingOut
                           then ml1\<lparr>m_doRampDown := False, m_fadeGain := 0\<rparr>
                           else if m_fadeState ml1 = FadingIn
                           then ml1\<lparr>m_doRampUp := False, m_fadeGain := 1\<rparr>
                           else ml1)
                in (ml2\<lparr>m_fadeState := Idle\<rparr>, buffer1)
              else (ml1, buffer1)
         else (ml, buffer))"

fun fade_loop :: "nat \<Rightarrow> nat \<Rightarrow> 'm ModelLoader \<times> real list \<Rightarrow> 'm ModelLoader \<times> real list" where
  "fade_loop 0 i st = st"
| "fade_loop (Suc k) i st = fade_loop k (Suc i) (fade_sample i st)"

definition applyFade :: "real list \<Rightarrow> nat \<Rightarrow> 'm ModelLoader \<Rightarrow> 'm ModelLoader \<times> real list" where
  "applyFade buffer numSamples ml =
     (if m_fadeState ml = Idle then (ml, buffer) else fade_loop numSamples 0 (ml, buffer))"

text \<open>
  The worker waits for the fade-out with a timeout while the audio thread runs
  \<open>applyFade\<close>. \<open>rt\<close> is the audio the audio thread passed through \<open>applyFade\<close> during the
  wait (empty when the audio thread is not running and the wait times out).
\<close>

definition wait_for_fade :: "real list \<Rightarrow> 'm ModelLoader \<Rightarrow> 'm ModelLoader" where
  "wait_for_fade rt ml = fst (applyFade rt (length rt) ml)"

definition doLoadModel :: "'m NeuralAudio \<Rightarrow> real list \<Rightarrow> string \<Rightarrow> 'm ModelLoader \<Rightarrow> 'm ModelLoader" where
  "doLoadModel na rt path ml =
     (let ml1 = (if m_ready ml then wait_for_fade rt (startFadeOut ml) else ml);
          ml2 = ml1\<lparr>m_ready := False\<rparr>
      in case CreateFromFile na path of
           None \<Rightarrow> ml2\<lparr>m_ready := False, m_modelPath := []\<rparr>
         | Some newModel \<Rightarrow>
             let newModel1 = SetMaxAudioBufferSize na (m_maxBufferSize ml2) newModel;
                 modelSR = trunc_toward_zero (GetSampleRate na newModel1);
                 loudness = GetRecommendedOutputDBAdjustment na newModel1;
                 normGain = 10 powr ((- 6 + loudness) / 20);
                 newModel2 = fst (Process na newModel1 (replicate PREWARM_SAMPLES 0));
                 ml3 = ml2\<lparr>m_modelSampleRate := modelSR,
                           m_normalizationGain := normGain,
                           m_model := Some newModel2,
                           m_modelPath := path\<rparr>
             in (startFadeIn ml3)\<lparr>m_ready := True\<rparr>)"

text \<open>One round of the worker thread's loop, once it has been woken.\<close>

definition workerThread_round :: "'m NeuralAudio \<Rightarrow> real list \<Rightarrow> 'm ModelLoader \<Rightarrow> 'm ModelLoader" where
  "workerThread_round na rt ml =
     (if \<not> m_workerRunning ml then ml
      else if m_loadRequested ml
      then
        let pathToLoad = m_pendingModelPath ml
        in doLoadModel na rt pathToLoad (ml\<lparr>m_loadRequested := False\<rparr>)
      else ml)"

definition ModelLoader_unloadModel :: "real list \<Rightarrow> 'm ModelLoader \<Rightarrow> 'm ModelLoader" where
  "ModelLoader_unloadModel rt ml =
     (let ml1 = wait_for_fade rt (startFadeOut ml);
          ml2 = ml1\<lparr>m_model := None\<rparr>
      in ml2\<lparr>m_ready := False, m_modelPath := []\<rparr>)"

section \<open>Engine (Engine.h, Engine.cpp)\<close>

datatype StereoMode = LeftMono2Stereo | Stereo2Stereo | RightMono2Stereo | Stereo2Mono

text \<open>An array of two elements (\<^verbatim>\<open>m_modelSlots[2]\<close>, \<^verbatim>\<open>m_modelPaths[2]\<close>), read and
  written at index 0 or 1.\<close>

datatype 'x array2 = Array2 'x 'x

fun at2 :: "'x array2 \<Rightarrow> int \<Rightarrow> 'x" where
  "at2 (Array2 a b) i = (if i = 0 then a else b)"

fun upd2 :: "'x array2 \<Rightarrow> int \<Rightarrow> 'x \<Rightarrow> 'x array2" where
  "upd2 (Array2 a b) i x = (if i = 0 then Array2 x b else Array2 a x)"

text \<open>
  The engine's members the claims are about. \<open>m_dsp\<close> stands for the rest of the
  engine's state, which the claims do not look into: the noise gates, DC blockers,
  equalisers and the reverb with their cells, the gain cells with their smoothed
  shadows, and the scratch buffers.
\<close>

record ('a, 'm, 'd) Engine =
  m_sampleRate :: int
  m_bufferSize :: int
  m_stereoMode :: StereoMode
  m_stereo2MonoMixL :: cfloat
  m_stereo2MonoMixR :: cfloat
  m_modelSlots :: "'m ModelLoader array2"
  m_activeSlot :: int
  m_activeSlotL :: int
  m_activeSlotR :: int
  m_modelPaths :: "string array2"
  m_recorder :: "'a AudioRecorder"
  m_includeBackingTrackInRecording :: bool
  m_bypass :: bool
  m_bypassModel :: bool
  m_bypassModelL :: bool
  m_bypassModelR :: bool
  m_normalize :: bool
  m_noiseGateEnabled :: bool
  m_dcBlockerEnabled :: bool
  m_xrunCount :: uint32_t
  m_dsp :: 'd

definition AudioRecorder_new :: "string \<Rightarrow> (size_t \<Rightarrow> 'a) \<Rightarrow> 'a AudioRecorder" where
  "AudioRecorder_new recordingsDir ring =
     \<lparr>m_recordingsDir = recordingsDir, m_currentFilePath = [], rec_m_sampleRate = 48000,
      m_ringBuffer = ring, m_writePos = 0, m_readPos = 0, m_recording = False,
      m_droppedFrames = 0, m_writerThread = False, m_recordingStartTime = 0\<rparr>"

text \<open>The constructor followed by \<open>init\<close>. \<open>ring\<close> is the content of the recorder's
  array, which the constructor leaves uninitialised, and \<open>dsp\<close> the initial state of the
  DSP modules.\<close>

definition Engine_new :: "int \<Rightarrow> int \<Rightarrow> (size_t \<Rightarrow> 'a) \<Rightarrow> 'd \<Rightarrow> ('a, 'm, 'd) Engine" where
  "Engine_new sampleRate bufferSize ring dsp =
     \<lparr>m_sampleRate = sampleRate, m_bufferSize = bufferSize,
      m_stereoMode = LeftMono2Stereo,
      m_stereo2MonoMixL = Finite (1 / 2), m_stereo2MonoMixR = Finite (1 / 2),
      m_modelSlots = Array2 (ModelLoader_new sampleRate bufferSize) (ModelLoader_new sampleRate bufferSize),
      m_activeSlot = 0, m_activeSlotL = 0, m_activeSlotR = 0,
      m_modelPaths = Array2 [] [],
      m_recorder = AudioRecorder_new ''./recordings'' ring,
      m_includeBackingTrackInRecording = False,
      m_bypass = False, m_bypassModel = False, m_bypassModelL = False, m_bypassModelR = True,
      m_normalize = True, m_noiseGateEnabled = False, m_dcBlockerEnabled = False,
      m_xrunCount = 0, m_dsp = dsp\<rparr>"

text \<open>
  \<open>process\<close> and \<open>processStereo\<close>. What follows the two guards (gain smoothing, noise
  gate, model, equaliser, DC blocker, reverb, recording tap) runs the DSP modules and
  the external model and is the parameter \<open>graph\<close>: from the engine and the buffers it
  gives the state it writes (the DSP state, the slots' fade state, the recorder) and the
  output buffers. \<^verbatim>\<open>static_cast<size_t>(m_bufferSize)\<close> is \<open>word_of_int\<close>. A null
  \<open>inputR\<close> or \<open>outputR\<close> is \<open>None\<close>.
\<close>

type_synonym ('a, 'm, 'd) graph_state = "'d \<times> 'm ModelLoader array2 \<times> 'a AudioRecorder"

definition store_graph_state :: "('a, 'm, 'd) graph_state \<Rightarrow> ('a, 'm, 'd) Engine \<Rightarrow> ('a, 'm, 'd) Engine" where
  "store_graph_state st e =
     e\<lparr>m_dsp := fst st, m_modelSlots := fst (snd st), m_recorder := snd (snd st)\<rparr>"

definition Engine_process ::
  "(('a, 'm, 'd) Engine \<Rightarrow> 'a list \<Rightarrow> 'a list \<Rightarrow> size_t \<Rightarrow> ('a, 'm, 'd) graph_state \<times> 'a list) \<Rightarrow>
   'a list \<Rightarrow> 'a list \<Rightarrow> size_t \<Rightarrow> ('a, 'm, 'd) Engine \<Rightarrow> ('a, 'm, 'd) Engine \<times> 'a list" where
  "Engine_process graph input output numSamples e =
     (if numSamples > word_of_int (m_bufferSize e)
      then (e\<lparr>m_xrunCount := m_xrunCount e + 1\<rparr>, memcpy output input (unat numSamples))
      else if m_bypass e
      then (e, memcpy output input (unat numSamples))
      else
        let res = graph e input output numSamples
        in (store_graph_state (fst res) e, snd res))"

text \<open>The copy both guards of \<open>processStereo\<close> make.\<close>

definition copy_through ::
  "'a list \<Rightarrow> 'a list option \<Rightarrow> 'a list \<Rightarrow> 'a list option \<Rightarrow> nat \<Rightarrow> 'a list \<times> 'a list option" where
  "copy_through inputL inputR outputL outputR n =
     (memcpy outputL inputL n,
      case outputR of
        None \<Rightarrow> None
      | Some outR \<Rightarrow>
          (case inputR of
             Some inR \<Rightarrow> Some (memcpy outR inR n)
           | None \<Rightarrow> Some (memcpy outR inputL n)))"

definition processStereo ::
  "(('a, 'm, 'd) Engine \<Rightarrow> 'a list \<Rightarrow> 'a list option \<Rightarrow> 'a list \<Rightarrow> 'a list option \<Rightarrow> size_t \<Rightarrow>
      ('a, 'm, 'd) graph_state \<times> 'a list \<times> 'a list option) \<Rightarrow>
   'a list \<Rightarrow> 'a list option \<Rightarrow> 'a list \<Rightarrow> 'a list option \<Rightarrow> size_t \<Rightarrow> ('a, 'm, 'd) Engine \<Rightarrow>
   ('a, 'm, 'd) Engine \<times> 'a list \<times> 'a list option" where
  "processStereo graph inputL inputR outputL outputR numSamples e =
     (if numSamples > word_of_int (m_bufferSize e)
      then (e\<lparr>m_xrunCount := m_xrunCount e + 1\<rparr>,
            copy_through inputL inputR outputL outputR (unat numSamples))
      else if m_bypass e
      then (e, copy_through inputL inputR outputL outputR (unat numSamples))
      else
        let res = graph e inputL inputR outputL outputR numSamples
        in (store_graph_state (fst res) e, snd res))"

definition Engine_loadModelAsync :: "int \<Rightarrow> string \<Rightarrow> ('a, 'm, 'd) Engine \<Rightarrow> ('a, 'm, 'd) Engine" where
  "Engine_loadModelAsync slot modelPath e =
     (if slot < 0 \<or> slot \<ge> 2 then e
      else e\<lparr>m_modelSlots := upd2 (m_modelSlots e) slot
                 (ModelLoader_loadModelAsync modelPath (at2 (m_modelSlots e) slot)),
             m_modelPaths := upd2 (m_modelPaths e) slot modelPath\<rparr>)"

definition isModelReady :: "int \<Rightarrow> ('a, 'm, 'd) Engine \<Rightarrow> bool" where
  "isModelReady slot e = (if slot < 0 \<or> slot \<ge> 2 then False else isReady (at2 (m_modelSlots e) slot))"

definition Engine_getModelPath :: "int \<Rightarrow> ('a, 'm, 'd) Engine \<Rightarrow> string" where
  "Engine_getModelPath slot e = (if slot < 0 \<or> slot \<ge> 2 then [] else at2 (m_modelPaths e) slot)"

definition Engine_unloadModel :: "real list \<Rightarrow> int \<Rightarrow> ('a, 'm, 'd) Engine \<Rightarrow> ('a, 'm, 'd) Engine" where
  "Engine_unloadModel rt slot e =
     (if slot < 0 \<or> slot \<ge> 2 then e
      else e\<lparr>m_modelSlots := upd2 (m_modelSlots e) slot
                 (ModelLoader_unloadModel rt (at2 (m_modelSlots e) slot)),
             m_modelPaths := upd2 (m_modelPaths e) slot []\<rparr>)"

text \<open>The worker thread of slot \<open>slot\<close> runs one round.\<close>

definition worker_round :: "'m NeuralAudio \<Rightarrow> real list \<Rightarrow> int \<Rightarrow> ('a, 'm, 'd) Engine \<Rightarrow> ('a, 'm, 'd) Engine" where
  "worker_round na rt slot e =
     e\<lparr>m_modelSlots := upd2 (m_modelSlots e) slot
          (workerThread_round na rt (at2 (m_modelSlots e) slot))\<rparr>"

definition setActiveModel :: "int \<Rightarrow> ('a, 'm, 'd) Engine \<Rightarrow> ('a, 'm, 'd) Engine" where
  "setActiveModel slot e =
     (if slot \<ge> 0 \<and> slot < 2
      then e\<lparr>m_activeSlot := slot, m_activeSlotL := slot, m_activeSlotR := slot\<rparr> else e)"

definition setActiveModelL :: "int \<Rightarrow> ('a, 'm, 'd) Engine \<Rightarrow> ('a, 'm, 'd) Engine" where
  "setActiveModelL slot e = (if slot \<ge> 0 \<and> slot < 2 then e\<lparr>m_activeSlotL := slot\<rparr> else e)"

definition setActiveModelR :: "int \<Rightarrow> ('a, 'm, 'd) Engine \<Rightarrow> ('a, 'm, 'd) Engine" where
  "setActiveModelR slot e = (if slot \<ge> 0 \<and> slot < 2 then e\<lparr>m_activeSlotR := slot\<rparr> else e)"

definition setBypassModelL :: "bool \<Rightarrow> ('a, 'm, 'd) Engine \<Rightarrow> ('a, 'm, 'd) Engine" where
  "setBypassModelL bypass e = e\<lparr>m_bypassModelL := bypass\<rparr>"

definition setBypassModelR :: "bool \<Rightarrow> ('a, 'm, 'd) Engine \<Rightarrow> ('a, 'm, 'd) Engine" where
  "setBypassModelR bypass e = e\<lparr>m_bypassModelR := bypass\<rparr>"

definition setStereoMode :: "StereoMode \<Rightarrow> ('a, 'm, 'd) Engine \<Rightarrow> ('a, 'm, 'd) Engine" where
  "setStereoMode mode e = e\<lparr>m_stereoMode := mode\<rparr>"

definition setStereo2MonoMixL :: "cfloat \<Rightarrow> ('a, 'm, 'd) Engine \<Rightarrow> ('a, 'm, 'd) Engine" where
  "setStereo2MonoMixL level e =
     (let clampedLevel = std_max (Finite 0) (std_min (Finite 1) level)
      in e\<lparr>m_stereo2MonoMixL := clampedLevel\<rparr>)"

definition setStereo2MonoMixR :: "cfloat \<Rightarrow> ('a, 'm, 'd) Engine \<Rightarrow> ('a, 'm, 'd) Engine" where
  "setStereo2MonoMixR level e =
     (let clampedLevel = std_max (Finite 0) (std_min (Finite 1) level)
      in e\<lparr>m_stereo2MonoMixR := clampedLevel\<rparr>)"

definition getStereo2MonoMixL :: "('a, 'm, 'd) Engine \<Rightarrow> cfloat" where
  "getStereo2MonoMixL e = m_stereo2MonoMixL e"

definition getStereo2MonoMixR :: "('a, 'm, 'd) Engine \<Rightarrow> cfloat" where
  "getStereo2MonoMixR e = m_stereo2MonoMixR e"

definition setBypass :: "bool \<Rightarrow> ('a, 'm, 'd) Engine \<Rightarrow> ('a, 'm, 'd) Engine" where
  "setBypass bypass e = e\<lparr>m_bypass := bypass\<rparr>"

definition setBypassModel :: "bool \<Rightarrow> ('a, 'm, 'd) Engine \<Rightarrow> ('a, 'm, 'd) Engine" where
  "setBypassModel bypass e = e\<lparr>m_bypassModel := bypass\<rparr>"

definition setNormalize :: "bool \<Rightarrow> ('a, 'm, 'd) Engine \<Rightarrow> ('a, 'm, 'd) Engine" where
  "setNormalize normalize' e = e\<lparr>m_normalize := normalize'\<rparr>"

definition getXrunCount :: "('a, 'm, 'd) Engine \<Rightarrow> uint32_t" where
  "getXrunCount e = m_xrunCount e"

definition resetXrunCount :: "('a, 'm, 'd) Engine \<Rightarrow> ('a, 'm, 'd) Engine" where
  "resetXrunCount e = e\<lparr>m_xrunCount := 0\<rparr>"

text \<open>
  The operations on an engine that the model covers, and a run of them from a state.
  The outputs of the audio calls are dropped: a run keeps the engine only.
\<close>

datatype 'a engine_op =
    OpSetStereo2MonoMixL cfloat
  | OpSetStereo2MonoMixR cfloat
  | OpSetStereoMode StereoMode
  | OpSetBypass bool
  | OpSetBypassModel bool
  | OpSetBypassModelL bool
  | OpSetBypassModelR bool
  | OpSetNormalize bool
  | OpSetActiveModel int
  | OpSetActiveModelL int
  | OpSetActiveModelR int
  | OpLoadModelAsync int string
  | OpWorkerRound int "real list"
  | OpUnloadModel int "real list"
  | OpResetXrunCount
  | OpProcess "'a list" "'a list" size_t
  | OpProcessStereo "'a list" "'a list option" "'a list" "'a list option" size_t

fun apply_op ::
  "(('a, 'm, 'd) Engine \<Rightarrow> 'a list \<Rightarrow> 'a list \<Rightarrow> size_t \<Rightarrow> ('a, 'm, 'd) graph_state \<times> 'a list) \<Rightarrow>
   (('a, 'm, 'd) Engine \<Rightarrow> 'a list \<Rightarrow> 'a list option \<Rightarrow> 'a list \<Rightarrow> 'a list option \<Rightarrow> size_t \<Rightarrow>
      ('a, 'm, 'd) graph_state \<times> 'a list \<times> 'a list option) \<Rightarrow>
   'm NeuralAudio \<Rightarrow> 'a engine_op \<Rightarrow> ('a, 'm, 'd) Engine \<Rightarrow> ('a, 'm, 'd) Engine" where
  "apply_op g gs na (OpSetStereo2MonoMixL v) e = setStereo2MonoMixL v e"
| "apply_op g gs na (OpSetStereo2MonoMixR v) e = setStereo2MonoMixR v e"
| "apply_op g gs na (OpSetStereoMode m) e = setStereoMode m e"
| "apply_op g gs na (OpSetBypass b) e = setBypass b e"
| "apply_op g gs na (OpSetBypassModel b) e = setBypassModel b e"
| "apply_op g gs na (OpSetBypassModelL b) e = setBypassModelL b e"
| "apply_op g gs na (OpSetBypassModelR b) e = setBypassModelR b e"
| "apply_op g gs na (OpSetNormalize b) e = setNormalize b e"
| "apply_op g gs na (OpSetActiveModel s) e = setActiveModel s e"
| "apply_op g gs na (OpSetActiveModelL s) e = setActiveModelL s e"
| "apply_op g gs na (OpSetActiveModelR s) e = setActiveModelR s e"
| "apply_op g gs na (OpLoadModelAsync s p) e = Engine_loadModelAsync s p e"
| "apply_op g gs na (OpWorkerRound s rt) e = worker_round na rt s e"
| "apply_op g gs na (OpUnloadModel s rt) e = Engine_unloadModel rt s e"
| "apply_op g gs na OpResetXrunCount e = resetXrunCount e"
| "apply_op g gs na (OpProcess input output n) e = fst (Engine_process g input output n e)"
| "apply_op g gs na (OpProcessStereo inL inR outL outR n) e = fst (processStereo gs inL inR outL outR n e)"

definition run_ops ::
  "(('a, 'm, 'd) Engine \<Rightarrow> 'a list \<Rightarrow> 'a list \<Rightarrow> size_t \<Rightarrow> ('a, 'm, 'd) graph_state \<times> 'a list) \<Rightarrow>
   (('a, 'm, 'd) Engine \<Rightarrow> 'a list \<Rightarrow> 'a list option \<Rightarrow> 'a list \<Rightarrow> 'a list option \<Rightarrow> size_t \<Rightarrow>
      ('a, 'm, 'd) graph_state \<times> 'a list \<times> 'a list option) \<Rightarrow>
   'm NeuralAudio \<Rightarrow> 'a engine_op list \<Rightarrow> ('a, 'm, 'd) Engine \<Rightarrow> ('a, 'm, 'd) Engine" where
  "run_ops g gs na ops e = foldl (\<lambda>e op. apply_op g gs na op e) e ops"

text \<open>A float in the interval \<open>[0, 1]\<close>.\<close>

fun in_unit :: "cfloat \<Rightarrow> bool" where
  "in_unit (Finite v) = (0 \<le> v \<and> v \<le> 1)"
| "in_unit _ = False"

text \<open>Concrete instances: an engine with a maximum block size of 4 samples, a library
  that constructs no model from any path, and a graph that leaves the buffers alone.\<close>

definition engine_example :: "(int, unit, unit) Engine" where
  "engine_example = Engine_new 48000 4 (\<lambda>_. 0) ()"

definition no_model_library :: "unit NeuralAudio" where
  "no_model_library =
     \<lparr>CreateFromFile = (\<lambda>_. None), SetMaxAudioBufferSize = (\<lambda>_ m. m),
      GetSampleRate = (\<lambda>_. 48000), GetRecommendedOutputDBAdjustment = (\<lambda>_. 0),
      Process = (\<lambda>m xs. (m, xs))\<rparr>"

definition idle_graph ::
  "(int, unit, unit) Engine \<Rightarrow> int list \<Rightarrow> int list \<Rightarrow> size_t \<Rightarrow> (int, unit, unit) graph_state \<times> int list" where
  "idle_graph e input output n = ((m_dsp e, m_modelSlots e, m_recorder e), output)"

definition idle_graph_stereo ::
  "(int, unit, unit) Engine \<Rightarrow> int list \<Rightarrow> int list option \<Rightarrow> int list \<Rightarrow> int list option \<Rightarrow> size_t \<Rightarrow>
   (int, unit, unit) graph_state \<times> int list \<times> int list option" where
  "idle_graph_stereo e inL inR outL outR n = ((m_dsp e, m_modelSlots e, m_recorder e), outL, outR)"

section \<open>Properties of the floating-point arithmetic\<close>

text \<open>Rounding moves a number by at most half a unit in the last place: by a relative
  error of \<open>2^-p\<close> in the normal range, and by \<open>2^(emin-p)\<close> below it. A number of
  magnitude \<open>2^emax\<close> or less does not overflow.\<close>

lemma round_half_even_error: "\<bar>of_int (round_half_even z) - z\<bar> \<le> 1 / 2"
  unfolding round_half_even_def Let_def by (auto simp: abs_le_iff)

lemma floor_log2_bounds:
  assumes "0 < x"
  shows "2 powr of_int \<lfloor>log 2 x\<rfloor> \<le> x" "x < 2 powr of_int (\<lfloor>log 2 x\<rfloor> + 1)"
  using floor_log_eq_powr_iff [of x 2 "\<lfloor>log 2 x\<rfloor>"] assms by simp_all

lemma round_ieee_error:
  assumes "\<bar>x\<bar> \<le> 2 powr of_int emax" "1 \<le> p" "emin \<le> emax"
  shows "\<exists>y. round_ieee p emin emax x = Finite y \<and>
             \<bar>y - x\<bar> \<le> \<bar>x\<bar> / 2 ^ p + 2 powr of_int (emin - int p)"
proof (cases "x = 0")
  case True
  then show ?thesis by (simp add: round_ieee_def)
next
  case False
  define e where "e = \<lfloor>log 2 \<bar>x\<bar>\<rfloor>"
  define e' where "e' = max e emin"
  define q where "q = e' - (int p - 1)"
  define u :: real where "u = 2 powr of_int q"
  define y where "y = of_int (round_half_even (x / u)) * u"
  have pos: "0 < \<bar>x\<bar>" using False by simp
  have lo: "2 powr of_int e \<le> \<bar>x\<bar>" and hi: "\<bar>x\<bar> < 2 powr of_int (e + 1)"
    using floor_log2_bounds [OF pos] by (simp_all add: e_def)
  have u: "0 < u" by (simp add: u_def)
  have "(2::real) powr of_int e \<le> 2 powr of_int emax"
    using lo assms(1) by linarith
  then have e_le: "e \<le> emax" by simp
  then have e'_le: "e' \<le> emax" using assms(3) by (simp add: e'_def)
  have "y - x = (of_int (round_half_even (x / u)) - x / u) * u"
    using u by (simp add: y_def field_simps)
  then have "\<bar>y - x\<bar> = \<bar>of_int (round_half_even (x / u)) - x / u\<bar> * u"
    using u by (simp add: abs_mult)
  also have "\<dots> \<le> 1 / 2 * u"
    using round_half_even_error [of "x / u"] u by (intro mult_right_mono) simp_all
  also have "\<dots> = 2 powr of_int (e' - int p)"
    by (simp add: u_def q_def powr_diff algebra_simps powr_add) 
  finally have err: "\<bar>y - x\<bar> \<le> 2 powr of_int (e' - int p)" .
  have p2: "(2::real) powr of_int (k - int p) = 2 powr of_int k / 2 ^ p" for k
    by (simp add: powr_diff powr_realpow)
  have bound: "2 powr of_int (e' - int p) \<le> \<bar>x\<bar> / 2 ^ p + 2 powr of_int (emin - int p)"
  proof (cases "emin \<le> e")
    case True
    then have "e' = e" by (simp add: e'_def)
    have "2 powr of_int (e - int p) \<le> \<bar>x\<bar> / 2 ^ p"
      unfolding p2 using lo by (rule divide_right_mono) simp
    moreover have "0 \<le> (2::real) powr of_int (emin - int p)" by simp
    ultimately show ?thesis unfolding \<open>e' = e\<close> by linarith
  next
    case False
    then have "e' = emin" by (simp add: e'_def)
    then show ?thesis by simp
  qed
  have "e' - int p \<le> emax - 1" using e'_le assms(2) by simp
  then have "(2::real) powr of_int (e' - int p) \<le> 2 powr of_int (emax - 1)"
    by (simp del: of_int_diff)
  then have "\<bar>y\<bar> \<le> 2 powr of_int emax + 2 powr of_int (emax - 1)"
    using err assms(1) by linarith
  also have "\<dots> < 2 powr of_int (emax + 1)"
    by (simp add: powr_diff powr_add)
  finally have no_ovf: "\<not> 2 powr of_int (emax + 1) \<le> \<bar>y\<bar>" by simp
  have "round_ieee p emin emax x = Finite y"
    using False no_ovf
    by (simp add: round_ieee_def Let_def y_def u_def q_def e'_def e_def)
  then show ?thesis using err bound by auto
qed

lemma two_powr_neg: "(2::real) powr - real n = 1 / 2 ^ n"
  by (simp add: powr_minus powr_realpow inverse_eq_divide)

lemma binary64_error:
  assumes "\<bar>x\<bar> \<le> 2 ^ 100"
  shows "\<exists>y. binary64 x = Finite y \<and> \<bar>y - x\<bar> \<le> \<bar>x\<bar> / 2 ^ 53 + 1 / 2 ^ 100"
proof -
  have "(2::real) ^ 100 \<le> 2 powr of_int 1023"
    using powr_mono [of "real (100::nat)" "1023" "2::real"] by (simp add: powr_realpow del: powr_mono)
  then have x: "\<bar>x\<bar> \<le> 2 powr of_int 1023" using assms by linarith
  obtain y where y: "round_ieee 53 (- 1022) 1023 x = Finite y"
    "\<bar>y - x\<bar> \<le> \<bar>x\<bar> / 2 ^ 53 + 2 powr of_int (- 1022 - int 53)"
    using round_ieee_error [OF x, of 53 "- 1022"] by auto
  have "(2::real) powr of_int (- 1022 - int 53) = 2 powr - real (1075::nat)" by simp
  also have "\<dots> = 1 / 2 ^ 1075" by (rule two_powr_neg)
  also have "\<dots> \<le> 1 / 2 ^ 100"
    by (intro divide_left_mono power_increasing) simp_all
  finally show ?thesis using y by (auto simp: binary64_def)
qed

lemma binary32_error:
  assumes "\<bar>x\<bar> \<le> 2 ^ 100"
  shows "\<exists>y. binary32 x = Finite y \<and> \<bar>y - x\<bar> \<le> \<bar>x\<bar> / 2 ^ 24 + 1 / 2 ^ 100"
proof -
  have "(2::real) ^ 100 \<le> 2 powr of_int 127"
    using powr_mono [of "real (100::nat)" "127" "2::real"] by (simp add: powr_realpow del: powr_mono)
  then have x: "\<bar>x\<bar> \<le> 2 powr of_int 127" using assms by linarith
  obtain y where y: "round_ieee 24 (- 126) 127 x = Finite y"
    "\<bar>y - x\<bar> \<le> \<bar>x\<bar> / 2 ^ 24 + 2 powr of_int (- 126 - int 24)"
    using round_ieee_error [OF x, of 24 "- 126"] by auto
  have "(2::real) powr of_int (- 126 - int 24) = 2 powr - real (150::nat)" by simp
  also have "\<dots> = 1 / 2 ^ 150" by (rule two_powr_neg)
  also have "\<dots> \<le> 1 / 2 ^ 100"
    by (intro divide_left_mono power_increasing) simp_all
  finally show ?thesis using y by (auto simp: binary32_def)
qed

lemma binary64_error_le:
  assumes "\<bar>x\<bar> \<le> B" "B \<le> 2 ^ 100"
  shows "\<exists>y. binary64 x = Finite y \<and> \<bar>y - x\<bar> \<le> B / 2 ^ 53 + 1 / 2 ^ 100"
proof -
  have "\<bar>x\<bar> \<le> 2 ^ 100" using assms by linarith
  from binary64_error [OF this] obtain y where
    y: "binary64 x = Finite y" "\<bar>y - x\<bar> \<le> \<bar>x\<bar> / 2 ^ 53 + 1 / 2 ^ 100" by blast
  have "\<bar>x\<bar> / 2 ^ 53 \<le> B / 2 ^ 53" using assms(1) by (rule divide_right_mono) simp
  with y show ?thesis by (intro exI [of _ y]) linarith
qed

lemma binary32_error_le:
  assumes "\<bar>x\<bar> \<le> B" "B \<le> 2 ^ 100"
  shows "\<exists>y. binary32 x = Finite y \<and> \<bar>y - x\<bar> \<le> B / 2 ^ 24 + 1 / 2 ^ 100"
proof -
  have "\<bar>x\<bar> \<le> 2 ^ 100" using assms by linarith
  from binary32_error [OF this] obtain y where
    y: "binary32 x = Finite y" "\<bar>y - x\<bar> \<le> \<bar>x\<bar> / 2 ^ 24 + 1 / 2 ^ 100" by blast
  have "\<bar>x\<bar> / 2 ^ 24 \<le> B / 2 ^ 24" using assms(1) by (rule divide_right_mono) simp
  with y show ?thesis by (intro exI [of _ y]) linarith
qed

text \<open>The value of a rounding, for a number whose binary exponent \<open>e\<close> is known.\<close>

lemma round_ieee_eval:
  assumes lo: "2 powr of_int e \<le> \<bar>x\<bar>" and hi: "\<bar>x\<bar> < 2 powr of_int (e + 1)"
    and e: "emin \<le> e" "e < emax" and p: "1 \<le> p"
    and m: "round_half_even (x / 2 powr of_int (e - (int p - 1))) = m"
  shows "round_ieee p emin emax x = Finite (of_int m * 2 powr of_int (e - (int p - 1)))"
proof -
  define u :: real where "u = 2 powr of_int (e - (int p - 1))"
  define y where "y = of_int m * u"
  have "0 < (2::real) powr of_int e" by simp
  then have x0: "x \<noteq> 0" "0 < \<bar>x\<bar>" using lo by auto
  have fl: "\<lfloor>log 2 \<bar>x\<bar>\<rfloor> = e"
    using floor_log_eq_powr_iff [of "\<bar>x\<bar>" 2 e] x0 lo hi by simp
  have u: "0 < u" by (simp add: u_def)
  have "y - x = (of_int m - x / u) * u" using u by (simp add: y_def field_simps)
  then have "\<bar>y - x\<bar> = \<bar>of_int m - x / u\<bar> * u" using u by (simp add: abs_mult)
  also have "\<dots> \<le> 1 / 2 * u"
    using round_half_even_error [of "x / u"] u m unfolding u_def by (intro mult_right_mono) simp_all
  also have "\<dots> = 2 powr of_int (e - int p)"
    by (simp add: u_def powr_diff algebra_simps powr_add)
  finally have err: "\<bar>y - x\<bar> \<le> 2 powr of_int (e - int p)" .
  have "e - int p \<le> emax - 1" "e + 1 \<le> emax" using e p by simp_all
  then have "(2::real) powr of_int (e - int p) \<le> 2 powr of_int (emax - 1)"
    "(2::real) powr of_int (e + 1) \<le> 2 powr of_int emax"
    by (simp_all del: of_int_diff of_int_add)
  then have "\<bar>y\<bar> < 2 powr of_int emax + 2 powr of_int (emax - 1)"
    using err hi by linarith
  also have "\<dots> < 2 powr of_int (emax + 1)"
    by (simp add: powr_diff powr_add)
  finally have no_ovf: "\<not> 2 powr of_int (emax + 1) \<le> \<bar>y\<bar>" by simp
  show ?thesis
    using x0(1) no_ovf e(1) m
    by (simp add: round_ieee_def Let_def fl y_def u_def max_def)
qed

lemma binary64_eval:
  assumes "2 powr of_int e \<le> \<bar>x\<bar>" "\<bar>x\<bar> < 2 powr of_int (e + 1)" "- 1022 \<le> e" "e < 1023"
    and "round_half_even (x / 2 powr of_int (e - 52)) = m"
  shows "binary64 x = Finite (of_int m * 2 powr of_int (e - 52))"
  using round_ieee_eval [of e x "- 1022" 1023 53 m] assms by (simp add: binary64_def)

lemma binary32_eval:
  assumes "2 powr of_int e \<le> \<bar>x\<bar>" "\<bar>x\<bar> < 2 powr of_int (e + 1)" "- 126 \<le> e" "e < 127"
    and "round_half_even (x / 2 powr of_int (e - 23)) = m"
  shows "binary32 x = Finite (of_int m * 2 powr of_int (e - 23))"
  using round_ieee_eval [of e x "- 126" 127 24 m] assms by (simp add: binary32_def)

lemma two_powr_neg_numeral: "(2::real) powr (- numeral k) = 1 / 2 ^ numeral k"
  by (simp add: powr_minus_divide)

text \<open>Bounds on \<open>\<pi>\<close> from Machin's formula and the alternating series of the
  arctangent.\<close>

lemma arctan_partial_sums:
  assumes "0 \<le> x" "x \<le> 1"
  shows "(\<Sum>k<2 * n. (- 1) ^ k * (1 / real (k * 2 + 1) * x ^ (k * 2 + 1))) \<le> arctan x"
    and "arctan x \<le> (\<Sum>k<2 * n + 1. (- 1) ^ k * (1 / real (k * 2 + 1) * x ^ (k * 2 + 1)))"
proof -
  let ?a = "\<lambda>k. 1 / real (k * 2 + 1) * x ^ (k * 2 + 1)"
  have ax: "\<bar>x\<bar> \<le> 1" using assms by simp
  have z: "?a \<longlonglongrightarrow> 0" by (rule zeroseq_arctan_series [OF ax])
  have nn: "0 \<le> ?a k" for k using assms by simp
  have mono: "?a (Suc k) \<le> ?a k" for k
  proof (rule mult_mono)
    show "1 / real (Suc k * 2 + 1) \<le> 1 / real (k * 2 + 1)"
      by (simp add: field_simps)
    show "x ^ (Suc k * 2 + 1) \<le> x ^ (k * 2 + 1)"
      using assms by (intro power_decreasing) simp_all
  qed (use assms in simp_all)
  have s: "arctan x = (\<Sum>k. (- 1) ^ k * ?a k)" by (rule arctan_series [OF ax])
  show "(\<Sum>k<2 * n. (- 1) ^ k * ?a k) \<le> arctan x"
    unfolding s by (rule summable_Leibniz'(2) [OF z nn mono])
  show "arctan x \<le> (\<Sum>k<2 * n + 1. (- 1) ^ k * ?a k)"
    unfolding s by (rule summable_Leibniz'(4) [OF z nn mono])
qed

lemma pi_bounds: "3.141592653588 \<le> pi" "pi \<le> 3.1415926535899"
proof -
  have m: "pi = 16 * arctan (1 / 5) - 4 * arctan (1 / 239)" using machin by simp
  have a: "0 \<le> (1 / 5 :: real)" "(1 / 5 :: real) \<le> 1" "0 \<le> (1 / 239 :: real)" "(1 / 239 :: real) \<le> 1"
    by simp_all
  note l5 = arctan_partial_sums(1) [OF a(1,2), of 4]
  note u5 = arctan_partial_sums(2) [OF a(1,2), of 4]
  note l239 = arctan_partial_sums(1) [OF a(3,4), of 2]
  note u239 = arctan_partial_sums(2) [OF a(3,4), of 2]
  show "3.141592653588 \<le> pi"
    unfolding m using l5 u239 by (simp add: eval_nat_numeral)
  show "pi \<le> 3.1415926535899"
    unfolding m using u5 l239 by (simp add: eval_nat_numeral)
qed

section \<open>Properties of the DC blocker\<close>

text \<open>The loop of \<open>process\<close>.\<close>

lemma DCBlocker_loop_length:
  "length (snd (DCBlocker_process_loop k i d buffer)) = length buffer"
  by (induction k arbitrary: i d buffer) (simp_all add: Let_def)

lemma DCBlocker_loop_coefficient:
  "m_coefficient (fst (DCBlocker_process_loop k i d buffer)) = m_coefficient d"
  by (induction k arbitrary: i d buffer) (simp_all add: Let_def)

lemma DCBlocker_loop_outside:
  "j < i \<or> i + k \<le> j \<Longrightarrow> snd (DCBlocker_process_loop k i d buffer) ! j = buffer ! j"
  by (induction k arbitrary: i d buffer) (auto simp: Let_def)

lemma DCBlocker_loop_recurrence:
  assumes "i + k \<le> length buffer" "i \<le> j" "j < i + k"
  shows "snd (DCBlocker_process_loop k i d buffer) ! j =
           buffer ! j - (if j = i then m_x1 d else buffer ! (j - 1))
           + m_coefficient d * (if j = i then m_y1 d else snd (DCBlocker_process_loop k i d buffer) ! (j - 1))"
  using assms
proof (induction k arbitrary: i d buffer)
  case 0
  then show ?case by simp
next
  case (Suc k)
  let ?out = "buffer ! i - m_x1 d + m_coefficient d * m_y1 d"
  let ?d = "d\<lparr>m_x1 := buffer ! i, m_y1 := ?out\<rparr>"
  let ?b = "buffer[i := ?out]"
  have step: "DCBlocker_process_loop (Suc k) i d buffer = DCBlocker_process_loop k (Suc i) ?d ?b"
    by (simp add: Let_def)
  have i: "i < length buffer" using Suc.prems by simp
  show ?case
  proof (cases "j = i")
    case True
    have "snd (DCBlocker_process_loop k (Suc i) ?d ?b) ! i = ?b ! i"
      by (rule DCBlocker_loop_outside) simp
    then show ?thesis using True i by (simp add: step del: DCBlocker_process_loop.simps)
  next
    case False
    then have j: "Suc i \<le> j" "j < Suc i + k" using Suc.prems by simp_all
    have len: "Suc i + k \<le> length ?b" using Suc.prems by simp
    have IH: "snd (DCBlocker_process_loop k (Suc i) ?d ?b) ! j =
           ?b ! j - (if j = Suc i then m_x1 ?d else ?b ! (j - 1))
           + m_coefficient ?d * (if j = Suc i then m_y1 ?d else snd (DCBlocker_process_loop k (Suc i) ?d ?b) ! (j - 1))"
      using len j by (rule Suc.IH)
    have prev: "snd (DCBlocker_process_loop k (Suc i) ?d ?b) ! i = ?out"
      using DCBlocker_loop_outside [of i "Suc i" k ?d ?b] i by simp
    show ?thesis
    proof (cases "j = Suc i")
      case True
      then show ?thesis using IH prev i by (simp add: step del: DCBlocker_process_loop.simps)
    next
      case False
      then have "j - 1 \<noteq> i" "j \<noteq> i" using j by simp_all
      then show ?thesis using IH False \<open>j \<noteq> i\<close> by (simp add: step del: DCBlocker_process_loop.simps)
    qed
  qed
qed

lemma DCBlocker_loop_state:
  assumes "i + k \<le> length buffer" "0 < k"
  shows "m_x1 (fst (DCBlocker_process_loop k i d buffer)) = buffer ! (i + k - 1) \<and>
         m_y1 (fst (DCBlocker_process_loop k i d buffer))
           = snd (DCBlocker_process_loop k i d buffer) ! (i + k - 1)"
  using assms
proof (induction k arbitrary: i d buffer)
  case 0
  then show ?case by simp
next
  case (Suc k)
  let ?out = "buffer ! i - m_x1 d + m_coefficient d * m_y1 d"
  let ?d = "d\<lparr>m_x1 := buffer ! i, m_y1 := ?out\<rparr>"
  let ?b = "buffer[i := ?out]"
  have step: "DCBlocker_process_loop (Suc k) i d buffer = DCBlocker_process_loop k (Suc i) ?d ?b"
    by (simp add: Let_def)
  have i: "i < length buffer" using Suc.prems by simp
  show ?case
  proof (cases k)
    case 0
    then show ?thesis using i by (simp add: Let_def)
  next
    case (Suc k')
    then have k: "0 < k" by simp
    have "m_x1 (fst (DCBlocker_process_loop k (Suc i) ?d ?b)) = ?b ! (Suc i + k - 1) \<and>
          m_y1 (fst (DCBlocker_process_loop k (Suc i) ?d ?b))
            = snd (DCBlocker_process_loop k (Suc i) ?d ?b) ! (Suc i + k - 1)"
      using Suc.prems k by (intro Suc.IH) simp_all
    then show ?thesis
      using k by (simp add: step del: DCBlocker_process_loop.simps)
  qed
qed

text \<open>The coefficient the constructor computes. The numerator \<^verbatim>\<open>2.0f * M_PI * fc\<close> is a
  constant within \<open>2^-34\<close> of \<open>20\<pi>\<close>; the sample rate, an \<^verbatim>\<open>int\<close> (32 bits), is converted
  with a relative error of at most \<open>2^-24\<close>; the quotient, the difference and the
  store each round once more.\<close>

lemma M_PI_value:
  "\<exists>a. M_PI = Finite a \<and> \<bar>a - 3.14159265358979323846\<bar> \<le> 1 / 2 ^ 50"
proof -
  have "\<bar>3.14159265358979323846 :: real\<bar> \<le> 4" "(4::real) \<le> 2 ^ 100" by simp_all
  from binary64_error_le [OF this] obtain a where
    a: "binary64 3.14159265358979323846 = Finite a"
    "\<bar>a - 3.14159265358979323846\<bar> \<le> 4 / 2 ^ 53 + 1 / 2 ^ 100"
    by blast
  have "(4::real) / 2 ^ 53 + 1 / 2 ^ 100 \<le> 1 / 2 ^ 50" by simp
  with a show ?thesis unfolding M_PI_def by (intro exI [of _ a]) linarith
qed

lemma numerator_value:
  "\<exists>t. ieee_mul binary64 (ieee_mul binary64 (Finite 2) M_PI) DC_BLOCK_FREQ = Finite t \<and>
       \<bar>t - 2 * pi * 10\<bar> \<le> 1 / 2 ^ 34"
proof -
  define P :: real where "P = 3.14159265358979323846"
  define u :: real where "u = 1 / 2 ^ 50"
  define k :: real where "k = 1 / 2 ^ 34"
  define w :: real where "w = 1 / 2 ^ 100"
  define v :: real where "v = 1 / 2 ^ 53"
  have P: "P - pi \<le> 18 / 10000000000000" "pi - P \<le> 18 / 10000000000000" "P \<le> 315 / 100" "0 \<le> P"
    using pi_bounds by (simp_all add: P_def)
  have c: "0 \<le> u" "u \<le> 1 / 100" "8 * v + w \<le> 2 * u" "90 * v + w \<le> 12 * u"
    "12 * u + 10 * (2 * u) + 20 * u + 20 * (18 / 10000000000000) \<le> k"
    by (simp_all add: u_def k_def v_def w_def)
  obtain a where a: "M_PI = Finite a" "\<bar>a - P\<bar> \<le> u"
    using M_PI_value unfolding P_def u_def by blast
  have a4: "\<bar>2 * a\<bar> \<le> 8" using a(2) c P by linarith
  from binary64_error_le [OF a4] obtain t1 where
    t1: "binary64 (2 * a) = Finite t1" "\<bar>t1 - 2 * a\<bar> \<le> 8 * v + w"
    unfolding v_def w_def by auto
  have t19: "\<bar>t1 * 10\<bar> \<le> 90" using a4 t1(2) c by linarith
  from binary64_error_le [OF t19] obtain t where
    t: "binary64 (t1 * 10) = Finite t" "\<bar>t - t1 * 10\<bar> \<le> 90 * v + w"
    unfolding v_def w_def by auto
  have "\<bar>t - 2 * pi * 10\<bar> \<le> k"
    using t1(2) t(2) a(2) P c by linarith
  moreover have "ieee_mul binary64 (ieee_mul binary64 (Finite 2) M_PI) DC_BLOCK_FREQ = Finite t"
    by (simp add: a(1) t1(1) t(1) DC_BLOCK_FREQ_def)
  ultimately show ?thesis unfolding k_def by blast
qed

lemma static_cast_float_value:
  assumes "\<bar>n\<bar> \<le> 2 ^ 31"
  shows "\<exists>f. static_cast_float n = Finite f \<and>
             \<bar>f - of_int n\<bar> \<le> \<bar>of_int n\<bar> / 2 ^ 24 + 1 / 2 ^ 100"
proof -
  have "\<bar>real_of_int n\<bar> \<le> 2 ^ 31" using assms
    by (metis of_int_abs of_int_le_iff of_int_numeral of_int_power)
  then have "\<bar>real_of_int n\<bar> \<le> 2 ^ 100" by simp
  from binary32_error [OF this] show ?thesis by (simp add: static_cast_float_def)
qed

lemma quotient_close:
  fixes t f s T :: real
  assumes T: "62 \<le> T" and s: "1 \<le> \<bar>s\<bar>"
    and t: "\<bar>t - T\<bar> \<le> 1 / 17179869184"
    and f: "\<bar>f - s\<bar> \<le> \<bar>s\<bar> * (67108865 / 1125899906842624)"
  shows "f \<noteq> 0" and "\<bar>t / f - T / s\<bar> \<le> \<bar>T / s\<bar> * (8193 / 137438953472)"
proof -
  define x where "x = T / s"
  define D where "D = t / f - x"
  have s0: "s \<noteq> 0" "0 < \<bar>s\<bar>" using s by auto
  have fs: "\<bar>s\<bar> * (1125899839733759 / 1125899906842624) \<le> \<bar>f\<bar>" using f by linarith
  then show f0: "f \<noteq> 0" using s by auto
  have xs: "x * s = T" using s0 by (simp add: x_def)
  then have "\<bar>x\<bar> * \<bar>s\<bar> = T" using T by (simp flip: abs_mult)
  have "D * f = (t - T) + x * (s - f)"
    using f0 xs by (simp add: D_def algebra_simps)
  then have "\<bar>D\<bar> * \<bar>f\<bar> = \<bar>(t - T) + x * (s - f)\<bar>" by (simp flip: abs_mult)
  also have "\<dots> \<le> \<bar>t - T\<bar> + \<bar>x\<bar> * \<bar>s - f\<bar>"
    using abs_triangle_ineq [of "t - T" "x * (s - f)"] by (simp add: abs_mult)
  also have "\<bar>x\<bar> * \<bar>s - f\<bar> \<le> \<bar>x\<bar> * (\<bar>s\<bar> * (67108865 / 1125899906842624))"
    using f by (intro mult_left_mono) (simp_all add: abs_minus_commute)
  also have "\<dots> = T * (67108865 / 1125899906842624)"
    using \<open>\<bar>x\<bar> * \<bar>s\<bar> = T\<close> by (simp add: algebra_simps)
  finally have Df: "\<bar>D\<bar> * \<bar>f\<bar> \<le> \<bar>t - T\<bar> + T * (67108865 / 1125899906842624)" by simp
  have "\<bar>D\<bar> * (\<bar>s\<bar> * (1125899839733759 / 1125899906842624)) \<le> \<bar>D\<bar> * \<bar>f\<bar>"
    using fs by (intro mult_left_mono) simp_all
  then have "(\<bar>D\<bar> * \<bar>s\<bar>) * (1125899839733759 / 1125899906842624)
               \<le> 1 / 17179869184 + T * (67108865 / 1125899906842624)"
    using Df t by (simp add: algebra_simps)
  then have "\<bar>D\<bar> * \<bar>s\<bar> \<le> T * (8193 / 137438953472)" using T by linarith
  also have "\<dots> = (\<bar>x\<bar> * (8193 / 137438953472)) * \<bar>s\<bar>"
    using \<open>\<bar>x\<bar> * \<bar>s\<bar> = T\<close> by (simp add: algebra_simps)
  finally have "\<bar>D\<bar> \<le> \<bar>x\<bar> * (8193 / 137438953472)"
    using s0(2) by (simp only: mult_le_cancel_right_pos)
  then show "\<bar>t / f - T / s\<bar> \<le> \<bar>T / s\<bar> * (8193 / 137438953472)"
    by (simp add: D_def x_def)
qed

lemma DCBlocker_new_coefficient:
  assumes "sampleRate \<noteq> 0" "- (2 ^ 31) \<le> sampleRate" "sampleRate < 2 ^ 31"
  shows "\<exists>R. m_coefficient (DCBlocker_new sampleRate) = Finite R \<and>
             \<bar>R - (1 - 2 * pi * 10 / real_of_int sampleRate)\<bar>
               \<le> (1 + 2 * \<bar>2 * pi * 10 / real_of_int sampleRate\<bar>) / 2 ^ 23"
proof -
  define s where "s = real_of_int sampleRate"
  define T where "T = 2 * pi * 10"
  define x where "x = T / s"
  define v :: real where "v = 1 / 2 ^ 53"
  define w :: real where "w = 1 / 2 ^ 100"
  have c: "0 \<le> v" "0 \<le> w" "w \<le> 1 / 1125899906842624" "326 * v + 3 * w \<le> 1 / 17592186044416"
    by (simp_all add: v_def w_def)
  have T: "62 \<le> T" "T \<le> 63" using pi_bounds by (simp_all add: T_def)
  have "1 \<le> \<bar>sampleRate\<bar>" using assms(1) by simp
  then have s1: "1 \<le> \<bar>s\<bar>" unfolding s_def by (metis of_int_abs of_int_1_le_iff)
  have X: "\<bar>x\<bar> \<le> 63"
  proof -
    have "\<bar>x\<bar> = T / \<bar>s\<bar>" using T by (simp add: x_def)
    also have "\<dots> \<le> T / 1" using s1 T by (intro divide_left_mono) simp_all
    finally show ?thesis using T by simp
  qed
  obtain t where t: "ieee_mul binary64 (ieee_mul binary64 (Finite 2) M_PI) DC_BLOCK_FREQ = Finite t"
    "\<bar>t - T\<bar> \<le> 1 / 2 ^ 34"
    using numerator_value unfolding T_def by blast
  have "\<bar>sampleRate\<bar> \<le> 2 ^ 31" using assms(2,3) by simp
  from static_cast_float_value [OF this] obtain f where
    f: "static_cast_float sampleRate = Finite f" "\<bar>f - s\<bar> \<le> \<bar>s\<bar> / 2 ^ 24 + w"
    unfolding s_def w_def by blast
  have t': "\<bar>t - T\<bar> \<le> 1 / 17179869184" using t(2) by simp
  have "\<bar>f - s\<bar> \<le> \<bar>s\<bar> / 16777216 + w" using f(2) by simp
  then have f': "\<bar>f - s\<bar> \<le> \<bar>s\<bar> * (67108865 / 1125899906842624)" using s1 c by linarith
  note q = quotient_close [OF T(1) s1 t' f']
  have g: "\<bar>t / f - x\<bar> \<le> \<bar>x\<bar> * (8193 / 137438953472)" using q(2) by (simp add: x_def)
  then have "\<bar>t / f\<bar> \<le> 126" using X by linarith
  moreover have "(126::real) \<le> 2 ^ 100" by simp
  ultimately obtain t3 where t3: "binary64 (t / f) = Finite t3" "\<bar>t3 - t / f\<bar> \<le> 126 * v + w"
    using binary64_error_le [of "t / f" 126] unfolding v_def w_def by auto
  have "\<bar>1 - t3\<bar> \<le> 200" using t3(2) g X c by linarith
  moreover have "(200::real) \<le> 2 ^ 100" by simp
  ultimately obtain t4 where t4: "binary64 (1 - t3) = Finite t4" "\<bar>t4 - (1 - t3)\<bar> \<le> 200 * v + w"
    using binary64_error_le [of "1 - t3" 200] unfolding v_def w_def by auto
  have "\<bar>t4\<bar> \<le> 201" using t4(2) \<open>\<bar>1 - t3\<bar> \<le> 200\<close> c by linarith
  then have "\<bar>t4\<bar> \<le> 2 ^ 100" by simp
  from binary32_error [OF this] obtain R where
    R: "binary32 t4 = Finite R" "\<bar>R - t4\<bar> \<le> \<bar>t4\<bar> / 2 ^ 24 + w"
    unfolding w_def by blast
  have R': "\<bar>R - t4\<bar> \<le> \<bar>t4\<bar> / 16777216 + w" using R(2) by simp
  have b1: "\<bar>t3 - x\<bar> \<le> \<bar>x\<bar> * (8193 / 137438953472) + (126 * v + w)"
    using t3(2) g by linarith
  have b2: "\<bar>t4\<bar> \<le> 1 + \<bar>x\<bar> + (\<bar>x\<bar> * (8193 / 137438953472) + (126 * v + w)) + (200 * v + w)"
    using t4(2) b1 by linarith
  have b3: "\<bar>R - (1 - x)\<bar> \<le> \<bar>R - t4\<bar> + \<bar>t4 - (1 - t3)\<bar> + \<bar>t3 - x\<bar>"
    by linarith
  have fin: "A + B + C \<le> (1 + 2 * Xx) / 8388608"
    if "A \<le> Tt / 16777216 + w" "B \<le> 200 * v + w"
      "C \<le> Xx * (8193 / 137438953472) + (126 * v + w)"
      "Tt \<le> 1 + Xx + (Xx * (8193 / 137438953472) + (126 * v + w)) + (200 * v + w)"
      "0 \<le> Xx" for A B C Tt Xx :: real
    using that c by (simp add: field_simps)
  have "\<bar>R - (1 - x)\<bar> \<le> (1 + 2 * \<bar>x\<bar>) / 8388608"
    using fin [OF R' t4(2) b1 b2] b3 by simp
  then have bound: "\<bar>R - (1 - x)\<bar> \<le> (1 + 2 * \<bar>x\<bar>) / 2 ^ 23" by simp
  have "m_coefficient (DCBlocker_new sampleRate) = Finite R"
    using q(1) by (simp add: DCBlocker_new_def DCBlocker_reset_def Let_def t(1) f(1) t3(1) t4(1) R(1))
  then show ?thesis using bound unfolding x_def T_def s_def by blast
qed

lemma DCBlocker_new_zero_rate: "m_coefficient (DCBlocker_new 0) = MinusInf"
proof -
  obtain t where t: "ieee_mul binary64 (ieee_mul binary64 (Finite 2) M_PI) DC_BLOCK_FREQ = Finite t"
    "\<bar>t - 2 * pi * 10\<bar> \<le> 1 / 2 ^ 34"
    using numerator_value by blast
  have "(1::real) / 2 ^ 34 \<le> 1" by simp
  then have "0 < t" using t(2) pi_ge_two by linarith
  have "static_cast_float 0 = Finite 0" by (simp add: static_cast_float_def binary32_def round_ieee_def)
  then show ?thesis
    using \<open>0 < t\<close> by (simp add: DCBlocker_new_def DCBlocker_reset_def Let_def t(1))
qed

text \<open>At 48000 Hz every rounding can be carried out: the coefficient is
  \<open>16755255 / 2^24\<close>.\<close>

lemma M_PI_eval: "M_PI = Finite (7074237752028440 / 2 ^ 51)"
  unfolding M_PI_def
  using binary64_eval [of 1 "3.14159265358979323846" 7074237752028440]
  by (simp add: round_half_even_def Let_def two_powr_neg_numeral)

lemma numerator_eval:
  "ieee_mul binary64 (ieee_mul binary64 (Finite 2) M_PI) DC_BLOCK_FREQ
     = Finite (8842797190035550 / 2 ^ 47)"
proof -
  have t1: "binary64 (2 * (7074237752028440 / 2 ^ 51)) = Finite (7074237752028440 / 2 ^ 50)"
    using binary64_eval [of 2 "2 * (7074237752028440 / 2 ^ 51)" 7074237752028440]
    by (simp add: round_half_even_def Let_def two_powr_neg_numeral)
  have t2: "binary64 (7074237752028440 / 2 ^ 50 * 10) = Finite (8842797190035550 / 2 ^ 47)"
    using binary64_eval [of 5 "7074237752028440 / 2 ^ 50 * 10" 8842797190035550]
    by (simp add: round_half_even_def Let_def two_powr_neg_numeral)
  show ?thesis by (simp only: M_PI_eval DC_BLOCK_FREQ_def ieee_mul.simps t1 t2)
qed

lemma static_cast_float_48000: "static_cast_float 48000 = Finite 48000"
  unfolding static_cast_float_def
  using binary32_eval [of 15 48000 12288000]
  by (simp add: round_half_even_def Let_def two_powr_neg_numeral)

lemma DCBlocker_new_48000:
  "m_coefficient (DCBlocker_new 48000) = Finite (16755255 / 16777216)"
proof -
  have t3: "binary64 (8842797190035550 / 2 ^ 47 / 48000) = Finite (6036682881730935 / 2 ^ 62)"
    using binary64_eval [of "- 10" "8842797190035550 / 2 ^ 47 / 48000" 6036682881730935]
    by (simp add: round_half_even_def Let_def two_powr_neg_numeral)
  have t4: "binary64 (1 - 6036682881730935 / 2 ^ 62) = Finite (8995408858487611 / 2 ^ 53)"
    using binary64_eval [of "- 1" "1 - 6036682881730935 / 2 ^ 62" 8995408858487611]
    by (simp add: round_half_even_def Let_def two_powr_neg_numeral)
  have R: "binary32 (8995408858487611 / 2 ^ 53) = Finite (16755255 / 16777216)"
    using binary32_eval [of "- 1" "8995408858487611 / 2 ^ 53" 16755255]
    by (simp add: round_half_even_def Let_def two_powr_neg_numeral)
  have d: "ieee_div binary64 (Finite (8842797190035550 / 2 ^ 47)) (Finite 48000)
             = Finite (6036682881730935 / 2 ^ 62)"
    using t3 by simp
  have s: "ieee_sub binary64 (Finite 1) (Finite (6036682881730935 / 2 ^ 62))
             = Finite (8995408858487611 / 2 ^ 53)"
    using t4 by simp
  have c: "double_to_float (Finite (8995408858487611 / 2 ^ 53)) = Finite (16755255 / 16777216)"
    using R by simp
  have "double_to_float
          (ieee_sub binary64 (Finite 1)
             (ieee_div binary64 (Finite (8842797190035550 / 2 ^ 47)) (Finite 48000)))
        = Finite (16755255 / 16777216)"
    by (simp only: d s c)
  then show ?thesis
    by (simp add: DCBlocker_new_def DCBlocker_reset_def Let_def numerator_eval
        static_cast_float_48000)
qed

lemma binary32_half: "binary32 (1 / 2) = Finite (1 / 2)"
  using binary32_eval [of "- 1" "1 / 2" 8388608]
  by (simp add: round_half_even_def Let_def two_powr_neg_numeral)

lemma binary32_zero: "binary32 0 = Finite 0"
  by (simp add: binary32_def round_ieee_def)

lemma binary32_half_coefficient:
  "binary32 (16755255 / 16777216 * (1 / 2)) = Finite (16755255 / 33554432)"
  using binary32_eval [of "- 2" "16755255 / 16777216 * (1 / 2)" 16755255]
  by (simp add: round_half_even_def Let_def two_powr_neg_numeral)

text \<open>
  Claim C8. \<open>DCBlocker::process\<close> computes, for every input sequence \<open>x\<close> and every index
  \<open>n\<close> of the block, \<open>y[n] = x[n] - x[n-1] + R * y[n-1]\<close> (as the code brackets it:
  \<open>(x[n] - x[n-1]) + (R * y[n-1])\<close>), where \<open>x[-1]\<close> and \<open>y[-1]\<close> are the state the filter
  enters the call with and \<open>R\<close> is its coefficient. This holds in any arithmetic,
  rounded or exact. After the call the state is exactly the last input and the last
  output of the block, so the recurrence runs on across calls; the coefficient is not
  changed by processing, and samples beyond \<open>numSamples\<close> are left as they were.

  The coefficient the constructor stores is \<^verbatim>\<open>1.0f - (2.0f * M_PI * fc / fs)\<close> with
  \<open>fc = 10\<close> and \<open>fs\<close> the sample rate it is given, evaluated in \<^verbatim>\<open>double\<close> and rounded to
  \<^verbatim>\<open>float\<close>. For every sample rate of an \<^verbatim>\<open>int\<close> other than 0 this is a finite float \<open>R\<close>
  within \<open>(1 + 2 * |2\<pi> * fc / fs|) / 2^23\<close> of \<open>1 - 2\<pi> * fc / fs\<close>, with \<open>\<pi>\<close> the real
  number (at audio rates: about two units in the last place of a float); for the
  sample rate 0 it is minus infinity. The constructor zeroes the state, and \<open>reset\<close>
  sets both state values to 0.
\<close>

theorem DCBlocker_recurrence:
  assumes "numSamples \<le> length x"
  shows "let r = DCBlocker_process d x numSamples; d' = fst r; y = snd r
         in (\<forall>n < numSamples.
               y ! n = x ! n - (if n = 0 then m_x1 d else x ! (n - 1))
                       + m_coefficient d * (if n = 0 then m_y1 d else y ! (n - 1))) \<and>
            length y = length x \<and> drop numSamples y = drop numSamples x \<and>
            m_coefficient d' = m_coefficient d \<and>
            (0 < numSamples \<longrightarrow> m_x1 d' = x ! (numSamples - 1) \<and> m_y1 d' = y ! (numSamples - 1)) \<and>
            (numSamples = 0 \<longrightarrow> d' = d) \<and>
            m_coefficient (DCBlocker_new sampleRate)
              = double_to_float
                  (ieee_sub binary64 (Finite 1)
                     (ieee_div binary64
                        (ieee_mul binary64 (ieee_mul binary64 (Finite 2) M_PI) DC_BLOCK_FREQ)
                        (static_cast_float sampleRate))) \<and>
            (sampleRate \<noteq> 0 \<and> - (2 ^ 31) \<le> sampleRate \<and> sampleRate < 2 ^ 31 \<longrightarrow>
               (\<exists>R. m_coefficient (DCBlocker_new sampleRate) = Finite R \<and>
                    \<bar>R - (1 - 2 * pi * 10 / real_of_int sampleRate)\<bar>
                      \<le> (1 + 2 * \<bar>2 * pi * 10 / real_of_int sampleRate\<bar>) / 2 ^ 23)) \<and>
            m_coefficient (DCBlocker_new 0) = MinusInf \<and>
            m_x1 (DCBlocker_new sampleRate) = 0 \<and> m_y1 (DCBlocker_new sampleRate) = 0 \<and>
            DCBlocker_reset d = d\<lparr>m_x1 := 0, m_y1 := 0\<rparr>"
proof -
  let ?r = "DCBlocker_process_loop numSamples 0 d x"
  have rec: "\<forall>n < numSamples.
      snd ?r ! n = x ! n - (if n = 0 then m_x1 d else x ! (n - 1))
                   + m_coefficient d * (if n = 0 then m_y1 d else snd ?r ! (n - 1))"
    using assms(1) DCBlocker_loop_recurrence [of 0 numSamples x _ d] by simp
  have len: "length (snd ?r) = length x" by (rule DCBlocker_loop_length)
  have rest: "drop numSamples (snd ?r) = drop numSamples x"
    by (rule nth_equalityI) (simp_all add: len DCBlocker_loop_outside)
  have coef: "m_coefficient (fst ?r) = m_coefficient d" by (rule DCBlocker_loop_coefficient)
  have state: "0 < numSamples \<longrightarrow>
      m_x1 (fst ?r) = x ! (numSamples - 1) \<and> m_y1 (fst ?r) = snd ?r ! (numSamples - 1)"
    using assms(1) DCBlocker_loop_state [of 0 numSamples x d] by simp
  have none: "numSamples = 0 \<longrightarrow> fst ?r = d" by simp
  have new: "m_coefficient (DCBlocker_new sampleRate)
              = double_to_float
                  (ieee_sub binary64 (Finite 1)
                     (ieee_div binary64
                        (ieee_mul binary64 (ieee_mul binary64 (Finite 2) M_PI) DC_BLOCK_FREQ)
                        (static_cast_float sampleRate)))"
    "m_x1 (DCBlocker_new sampleRate) = 0" "m_y1 (DCBlocker_new sampleRate) = 0"
    by (simp_all add: DCBlocker_new_def DCBlocker_reset_def Let_def)
  have near: "sampleRate \<noteq> 0 \<and> - (2 ^ 31) \<le> sampleRate \<and> sampleRate < 2 ^ 31 \<longrightarrow>
      (\<exists>R. m_coefficient (DCBlocker_new sampleRate) = Finite R \<and>
           \<bar>R - (1 - 2 * pi * 10 / real_of_int sampleRate)\<bar>
             \<le> (1 + 2 * \<bar>2 * pi * 10 / real_of_int sampleRate\<bar>) / 2 ^ 23)"
    using DCBlocker_new_coefficient [of sampleRate] by blast
  have zero: "m_coefficient (DCBlocker_new 0) = MinusInf"
    by (rule DCBlocker_new_zero_rate)
  have reset: "DCBlocker_reset d = d\<lparr>m_x1 := 0, m_y1 := 0\<rparr>" by (simp add: DCBlocker_reset_def)
  show ?thesis
    unfolding Let_def DCBlocker_process_def
    by (intro conjI) (rule rec len rest coef state none new near zero reset)+
qed

theorem DCBlocker_recurrence_witness:
  "m_coefficient (DCBlocker_new 48000) = Finite (16755255 / 16777216) \<and>
   \<bar>16755255 / 16777216 - (1 - 2 * pi * 10 / 48000)\<bar> \<le> (1 + 2 * \<bar>2 * pi * 10 / 48000\<bar>) / 2 ^ 23 \<and>
   snd (DCBlocker_process (DCBlocker_new 48000) [Finite (1 / 2), Finite (1 / 2), Finite (1 / 2)] 3) ! 0
     = Finite (1 / 2) \<and>
   snd (DCBlocker_process (DCBlocker_new 48000) [Finite (1 / 2), Finite (1 / 2), Finite (1 / 2)] 3) ! 1
     = Finite (16755255 / 33554432) \<and>
   m_x1 (fst (DCBlocker_process (DCBlocker_new 48000) [Finite (1 / 2), Finite (1 / 2), Finite (1 / 2)] 3))
     = Finite (1 / 2) \<and>
   m_y1 (fst (DCBlocker_process (DCBlocker_new 48000) [Finite (1 / 2), Finite (1 / 2), Finite (1 / 2)] 3))
     = snd (DCBlocker_process (DCBlocker_new 48000) [Finite (1 / 2), Finite (1 / 2), Finite (1 / 2)] 3) ! 2 \<and>
   m_coefficient (fst (DCBlocker_process (DCBlocker_new 48000) [Finite (1 / 2), Finite (1 / 2), Finite (1 / 2)] 3))
     = Finite (16755255 / 16777216)"
proof -
  let ?d = "DCBlocker_new 48000"
  let ?x = "[Finite (1 / 2), Finite (1 / 2), Finite (1 / 2)]"
  let ?y = "snd (DCBlocker_process ?d ?x 3)"
  have len: "3 \<le> length ?x" by simp
  note T = DCBlocker_recurrence [OF len, of ?d 48000, unfolded Let_def]
  have c: "m_coefficient ?d = Finite (16755255 / 16777216)" by (rule DCBlocker_new_48000)
  have "(48000::int) \<noteq> 0 \<and> - (2 ^ 31) \<le> (48000::int) \<and> (48000::int) < 2 ^ 31" by simp
  with T obtain R where R: "m_coefficient ?d = Finite R"
    "\<bar>R - (1 - 2 * pi * 10 / real_of_int 48000)\<bar> \<le> (1 + 2 * \<bar>2 * pi * 10 / real_of_int 48000\<bar>) / 2 ^ 23"
    by blast
  have "R = 16755255 / 16777216" using R(1) c by simp
  have near: "\<bar>16755255 / 16777216 - (1 - 2 * pi * 10 / 48000)\<bar>
      \<le> (1 + 2 * \<bar>2 * pi * 10 / 48000\<bar>) / 2 ^ 23"
    using R(2) unfolding \<open>R = 16755255 / 16777216\<close> by (simp only: of_int_numeral)
  have rec: "\<And>n. n < 3 \<Longrightarrow>
      ?y ! n = ?x ! n - (if n = 0 then m_x1 ?d else ?x ! (n - 1))
               + m_coefficient ?d * (if n = 0 then m_y1 ?d else ?y ! (n - 1))"
    using T by blast
  have init: "m_x1 ?d = Finite 0" "m_y1 ?d = Finite 0" using T by (simp_all add: zero_cfloat_def)
  have y0: "?y ! 0 = Finite (1 / 2)"
    using rec [of 0]
    by (simp add: init c plus_cfloat_def minus_cfloat_def times_cfloat_def binary32_half binary32_zero)
  have y1: "?y ! 1 = Finite (16755255 / 33554432)"
    using rec [of 1] binary32_half_coefficient
    by (simp add: y0 c plus_cfloat_def minus_cfloat_def times_cfloat_def binary32_zero)
  have st: "m_x1 (fst (DCBlocker_process ?d ?x 3)) = Finite (1 / 2)"
    "m_y1 (fst (DCBlocker_process ?d ?x 3)) = ?y ! 2"
    "m_coefficient (fst (DCBlocker_process ?d ?x 3)) = Finite (16755255 / 16777216)"
    using T c by simp_all
  show ?thesis by (intro conjI) (rule c near y0 y1 st)+
qed

section \<open>Properties of the recording ring buffer\<close>

lemma unat_RING_BUFFER_SIZE: "unat RING_BUFFER_SIZE = 960000"
  by (simp add: RING_BUFFER_SIZE_def)

lemma ring_lt_iff: "(w < RING_BUFFER_SIZE) = (unat w < 960000)"
  by (simp add: word_less_nat_alt unat_RING_BUFFER_SIZE)

lemma unat_ring_succ:
  assumes "w < RING_BUFFER_SIZE"
  shows "unat ((w + 1) mod RING_BUFFER_SIZE) = (unat w + 1) mod 960000"
proof -
  have "unat w < 960000" using assms by (simp add: ring_lt_iff)
  then have "unat (w + 1) = unat w + 1"
    by (simp add: unat_word_ariths)
  then show ?thesis
    by (simp add: unat_mod unat_RING_BUFFER_SIZE)
qed

lemma ring_succ_lt: "(w + 1) mod RING_BUFFER_SIZE < RING_BUFFER_SIZE"
  by (simp add: ring_lt_iff unat_mod unat_RING_BUFFER_SIZE)

lemma push_loop_pos:
  "w < RING_BUFFER_SIZE \<Longrightarrow>
     unat (snd (push_loop k i left right buf w)) = (unat w + 2 * k) mod 960000"
proof (induction k arbitrary: i buf w)
  case 0
  then show ?case by (simp add: ring_lt_iff)
next
  case (Suc k)
  let ?w1 = "(w + 1) mod RING_BUFFER_SIZE"
  let ?w2 = "(?w1 + 1) mod RING_BUFFER_SIZE"
  have w1: "unat ?w1 = (unat w + 1) mod 960000"
    using Suc.prems by (rule unat_ring_succ)
  have w2: "unat ?w2 = (unat ?w1 + 1) mod 960000"
    using ring_succ_lt by (rule unat_ring_succ)
  have "unat ?w2 = (unat w + 2) mod 960000"
    unfolding w2 w1 by (simp add: mod_simps)
  moreover have "?w2 < RING_BUFFER_SIZE" by (rule ring_succ_lt)
  ultimately show ?case
    using Suc.IH [of ?w2] by (simp add: Let_def mod_simps)
qed

lemma push_loop_lt: "w < RING_BUFFER_SIZE \<Longrightarrow> snd (push_loop k i left right buf w) < RING_BUFFER_SIZE"
  by (simp add: ring_lt_iff push_loop_pos)

lemma unat_writer_available:
  assumes "wp < RING_BUFFER_SIZE" "rp < RING_BUFFER_SIZE"
  shows "unat (writer_available wp rp) =
           (if unat rp \<le> unat wp then unat wp - unat rp else 960000 - unat rp + unat wp)"
proof (cases "rp \<le> wp")
  case True
  then have "unat (wp - rp) = unat wp - unat rp" by (simp add: unat_sub)
  moreover have "unat rp \<le> unat wp" using True by (simp add: word_le_nat_alt)
  ultimately show ?thesis using True
    by (simp add: writer_available_def)
next
  case False
  have b: "unat wp < 960000" "unat rp < 960000" using assms by (simp_all add: ring_lt_iff)
  have lt: "unat wp < unat rp" using False by (simp add: word_le_nat_alt)
  have "unat (RING_BUFFER_SIZE - rp) = 960000 - unat rp"
    using b by (simp add: unat_sub word_le_nat_alt unat_RING_BUFFER_SIZE)
  then have "unat (RING_BUFFER_SIZE - rp + wp) = 960000 - unat rp + unat wp"
    using b by (simp add: unat_word_ariths)
  then show ?thesis using False b lt
    by (simp add: writer_available_def)
qed

lemma unat_push_available:
  assumes "wp < RING_BUFFER_SIZE" "rp < RING_BUFFER_SIZE"
  shows "unat (push_available wp rp) = 959999 - unat (writer_available wp rp)"
proof -
  have b: "unat wp < 960000" "unat rp < 960000" using assms by (simp_all add: ring_lt_iff)
  show ?thesis
  proof (cases "rp \<le> wp")
    case True
    have le: "unat rp \<le> unat wp" using True by (simp add: word_le_nat_alt)
    have 1: "unat (RING_BUFFER_SIZE - wp) = 960000 - unat wp"
      using b by (simp add: unat_sub word_le_nat_alt unat_RING_BUFFER_SIZE)
    have 2: "unat (RING_BUFFER_SIZE - wp + rp) = 960000 - unat wp + unat rp"
      using b 1 by (simp add: unat_word_ariths)
    have "1 \<le> RING_BUFFER_SIZE - wp + rp"
      using 2 b by (simp add: word_le_nat_alt)
    then have 3: "unat (RING_BUFFER_SIZE - wp + rp - 1) = 960000 - unat wp + unat rp - 1"
      using 2 by (simp add: unat_sub)
    show ?thesis
      using True le b 3 unat_writer_available [OF assms]
      by (simp add: push_available_def)
  next
    case False
    have lt: "unat wp < unat rp" using False by (simp add: word_le_nat_alt)
    have 1: "unat (rp - wp) = unat rp - unat wp"
      using lt by (simp add: unat_sub word_le_nat_alt)
    have "1 \<le> rp - wp" using 1 lt by (simp add: word_le_nat_alt)
    then have 2: "unat (rp - wp - 1) = unat rp - unat wp - 1"
      using 1 by (simp add: unat_sub)
    show ?thesis
      using False lt b 2 unat_writer_available [OF assms]
      by (simp add: push_available_def)
  qed
qed

lemma writer_available_le:
  assumes "wp < RING_BUFFER_SIZE" "rp < RING_BUFFER_SIZE"
  shows "unat (writer_available wp rp) \<le> 959999"
  using assms by (auto simp: unat_writer_available ring_lt_iff)

lemma used_after_write:
  fixes wp rp m :: nat
  assumes "wp < 960000" "rp < 960000"
    and "(if rp \<le> wp then wp - rp else 960000 - rp + wp) + m \<le> 959999"
  shows "(if rp \<le> (wp + m) mod 960000 then (wp + m) mod 960000 - rp
          else 960000 - rp + (wp + m) mod 960000)
         = (if rp \<le> wp then wp - rp else 960000 - rp + wp) + m"
proof (cases "wp + m < 960000")
  case True
  then show ?thesis using assms by (auto split: if_splits)
next
  case False
  have "wp + m < 2 * 960000" using assms by (auto split: if_splits)
  then have "(wp + m) mod 960000 = wp + m - 960000"
    using False by (simp add: mod_if)
  then show ?thesis using assms False by (auto split: if_splits)
qed

lemma ring_used_alt:
  "ring_inv r \<Longrightarrow> ring_used r =
     (if unat (m_readPos r) \<le> unat (m_writePos r) then unat (m_writePos r) - unat (m_readPos r)
      else 960000 - unat (m_readPos r) + unat (m_writePos r))"
  by (simp add: ring_inv_def ring_used_def unat_writer_available)

lemma ring_used_le: "ring_inv r \<Longrightarrow> ring_used r \<le> 959999"
  by (simp add: ring_inv_def ring_used_def writer_available_le)

lemma push_free_plus_used:
  "ring_inv r \<Longrightarrow> unat (push_available (m_writePos r) (m_readPos r)) + ring_used r = 959999"
  using ring_used_le [of r] by (simp add: ring_inv_def unat_push_available ring_used_def)

lemma push_rejects_iff:
  assumes "ring_inv r" "2 * unat numSamples < (2::nat) ^ 64"
  shows "(push_available (m_writePos r) (m_readPos r) < numSamples * 2)
           = (959999 < ring_used r + 2 * unat numSamples)"
proof -
  have "unat (numSamples * 2) = 2 * unat numSamples"
    using assms(2) by (simp add: unat_word_ariths)
  then show ?thesis
    using push_free_plus_used [OF assms(1)] by (simp add: word_less_nat_alt) linarith
qed

lemma pushAudioFrame_dropped:
  assumes "ring_inv r" "2 * unat numSamples < (2::nat) ^ 64" "m_recording r"
    and "959999 < ring_used r + 2 * unat numSamples"
  shows "pushAudioFrame left right numSamples r = r\<lparr>m_droppedFrames := m_droppedFrames r + numSamples\<rparr>"
  using assms by (simp add: pushAudioFrame_def Let_def push_rejects_iff)

lemma pushAudioFrame_accepted:
  assumes "ring_inv r" "2 * unat numSamples < (2::nat) ^ 64" "m_recording r"
    and "ring_used r + 2 * unat numSamples \<le> 959999"
  shows "pushAudioFrame left right numSamples r =
           r\<lparr>m_ringBuffer := fst (push_loop (unat numSamples) 0 left right (m_ringBuffer r) (m_writePos r)),
             m_writePos := snd (push_loop (unat numSamples) 0 left right (m_ringBuffer r) (m_writePos r))\<rparr>"
  using assms by (simp add: pushAudioFrame_def Let_def push_rejects_iff)

lemma pushAudioFrame_idle:
  "\<not> m_recording r \<Longrightarrow> pushAudioFrame left right numSamples r = r"
  by (simp add: pushAudioFrame_def)

lemma pushAudioFrame_inv:
  assumes "ring_inv r"
  shows "ring_inv (pushAudioFrame left right numSamples r)"
  using assms by (simp add: pushAudioFrame_def Let_def ring_inv_def push_loop_lt)

lemma pushAudioFrame_readPos:
  "m_readPos (pushAudioFrame left right numSamples r) = m_readPos r"
  by (simp add: pushAudioFrame_def Let_def)

lemma pushAudioFrame_used:
  assumes "ring_inv r" "2 * unat numSamples < (2::nat) ^ 64"
  shows "ring_used (pushAudioFrame left right numSamples r) =
           ring_used r + (if m_recording r \<and> ring_used r + 2 * unat numSamples \<le> 959999
                          then 2 * unat numSamples else 0)"
proof (cases "m_recording r \<and> ring_used r + 2 * unat numSamples \<le> 959999")
  case True
  let ?r' = "pushAudioFrame left right numSamples r"
  have inv': "ring_inv ?r'" using assms(1) by (rule pushAudioFrame_inv)
  have b: "unat (m_writePos r) < 960000" "unat (m_readPos r) < 960000"
    using assms(1) by (simp_all add: ring_inv_def ring_lt_iff)
  have wp: "unat (m_writePos ?r') = (unat (m_writePos r) + 2 * unat numSamples) mod 960000"
    using assms True by (simp add: pushAudioFrame_accepted push_loop_pos ring_inv_def)
  have rp: "m_readPos ?r' = m_readPos r" by (rule pushAudioFrame_readPos)
  have "ring_used ?r' = ring_used r + 2 * unat numSamples"
    unfolding ring_used_alt [OF inv'] ring_used_alt [OF assms(1)] wp rp
    using True b by (intro used_after_write) (simp_all add: ring_used_alt [OF assms(1)])
  then show ?thesis using True by simp
next
  case False
  then show ?thesis
    using assms
    by (cases "m_recording r")
       (simp_all add: pushAudioFrame_idle pushAudioFrame_dropped ring_used_def)
qed

lemma ring_empty_iff:
  assumes "ring_inv r"
  shows "ring_empty r = (ring_used r = 0)"
proof -
  have b: "unat (m_writePos r) < 960000" "unat (m_readPos r) < 960000"
    using assms by (simp_all add: ring_inv_def ring_lt_iff)
  have "ring_empty r = (unat (m_writePos r) = unat (m_readPos r))"
    by (simp add: ring_empty_def word_unat_eq_iff)
  also have "\<dots> = (ring_used r = 0)"
    using b by (auto simp: ring_used_alt [OF assms])
  finally show ?thesis .
qed

lemma ring_full_iff:
  assumes "ring_inv r"
  shows "ring_full r = (ring_used r = 959999)"
proof -
  have b: "unat (m_writePos r) < 960000" "unat (m_readPos r) < 960000"
    using assms by (simp_all add: ring_inv_def ring_lt_iff)
  have "ring_full r = ((unat (m_writePos r) + 1) mod 960000 = unat (m_readPos r))"
    using assms by (simp add: ring_full_def word_unat_eq_iff unat_ring_succ ring_inv_def)
  also have "\<dots> = (ring_used r = 959999)"
  proof (cases "unat (m_writePos r) + 1 < 960000")
    case True
    then show ?thesis using b by (auto simp: ring_used_alt [OF assms])
  next
    case False
    then have "unat (m_writePos r) = 959999" using b by simp
    then show ?thesis using b by (auto simp: ring_used_alt [OF assms])
  qed
  finally show ?thesis .
qed

text \<open>
  Claim C2 (amended). The backing array of the ring has \<open>RING_BUFFER_SIZE = 960000\<close>
  elements, which is not a power of two (see \<open>ring_size_not_power_of_two\<close> below); the
  positions wrap with \<^verbatim>\<open>% RING_BUFFER_SIZE\<close>. The capacity invariant holds: for every push
  on a ring whose positions lie inside the array, the positions stay inside the array,
  the number of unread samples never exceeds \<open>RING_BUFFER_SIZE - 1\<close>, the space the
  producer computes is exactly \<open>RING_BUFFER_SIZE - 1\<close> minus the unread samples, the push
  adds its \<open>2 * numSamples\<close> samples exactly when they fit into that space (and nothing
  otherwise), the read position is not touched, and the full state (\<open>RING_BUFFER_SIZE - 1\<close>
  unread samples) and the empty state (none) never coincide. \<open>2 * numSamples\<close> is
  representable in \<^verbatim>\<open>size_t\<close>, as it is for any two buffers of \<open>numSamples\<close> floats.
\<close>

theorem ring_capacity_invariant:
  assumes "ring_inv r" and "2 * unat numSamples < (2::nat) ^ 64"
  shows "let r' = pushAudioFrame left right numSamples r in
           unat RING_BUFFER_SIZE = 960000 \<and>
           ring_inv r' \<and>
           ring_used r' \<le> unat RING_BUFFER_SIZE - 1 \<and>
           unat (push_available (m_writePos r) (m_readPos r)) + ring_used r = unat RING_BUFFER_SIZE - 1 \<and>
           ring_used r' = ring_used r +
             (if m_recording r \<and> ring_used r + 2 * unat numSamples \<le> unat RING_BUFFER_SIZE - 1
              then 2 * unat numSamples else 0) \<and>
           m_readPos r' = m_readPos r \<and>
           ring_empty r' = (ring_used r' = 0) \<and>
           ring_full r' = (ring_used r' = unat RING_BUFFER_SIZE - 1) \<and>
           \<not> (ring_full r' \<and> ring_empty r')"
proof -
  let ?r' = "pushAudioFrame left right numSamples r"
  have inv': "ring_inv ?r'" using assms(1) by (rule pushAudioFrame_inv)
  have apart: "\<not> (ring_full ?r' \<and> ring_empty ?r')"
    by (simp add: ring_empty_iff [OF inv'] ring_full_iff [OF inv'])
  have used: "ring_used ?r' = ring_used r +
      (if m_recording r \<and> ring_used r + 2 * unat numSamples \<le> 959999
       then 2 * unat numSamples else 0)"
    using assms by (rule pushAudioFrame_used)
  have C: "unat RING_BUFFER_SIZE - 1 = 959999"
    by (simp add: unat_RING_BUFFER_SIZE)
  show ?thesis
    unfolding Let_def C
    using inv' ring_used_le [OF inv'] push_free_plus_used [OF assms(1)] used apart
      pushAudioFrame_readPos [of left right numSamples r]
      ring_empty_iff [OF inv'] ring_full_iff [OF inv'] unat_RING_BUFFER_SIZE
    by blast
qed

text \<open>
  Claim C3. When \<open>pushAudioFrame\<close> is called while recording and the ring lacks room for
  the \<open>2 * numSamples\<close> interleaved samples of the block, the recorder after the call is
  the recorder before it with the dropped-frames counter increased by \<open>numSamples\<close>: no
  sample is written and the write position does not move. The counter changes only in
  that case, and it does not decrease (the counter is a \<^verbatim>\<open>uint64_t\<close>: short of its
  wrap-around at \<open>2^64\<close>).
\<close>

theorem pushAudioFrame_drops_on_overflow:
  assumes "ring_inv r" and "2 * unat numSamples < (2::nat) ^ 64"
  shows "let r' = pushAudioFrame left right numSamples r in
           (m_recording r \<and> unat RING_BUFFER_SIZE - 1 < ring_used r + 2 * unat numSamples \<longrightarrow>
              r' = r\<lparr>m_droppedFrames := m_droppedFrames r + numSamples\<rparr>) \<and>
           (getDroppedFrames r' \<noteq> getDroppedFrames r \<longrightarrow>
              m_recording r \<and> unat RING_BUFFER_SIZE - 1 < ring_used r + 2 * unat numSamples) \<and>
           (unat (getDroppedFrames r) + unat numSamples < 2 ^ 64 \<longrightarrow>
              unat (getDroppedFrames r) \<le> unat (getDroppedFrames r'))"
proof -
  let ?r' = "pushAudioFrame left right numSamples r"
  have 1: "m_recording r \<and> 959999 < ring_used r + 2 * unat numSamples \<longrightarrow>
             ?r' = r\<lparr>m_droppedFrames := m_droppedFrames r + numSamples\<rparr>"
    using assms by (simp add: pushAudioFrame_dropped)
  have 2: "getDroppedFrames ?r' \<noteq> getDroppedFrames r \<longrightarrow>
             m_recording r \<and> 959999 < ring_used r + 2 * unat numSamples"
  proof (cases "m_recording r")
    case True
    then show ?thesis
      using assms
      by (cases "ring_used r + 2 * unat numSamples \<le> 959999")
         (simp_all add: pushAudioFrame_accepted getDroppedFrames_def)
  next
    case False
    then show ?thesis by (simp add: pushAudioFrame_idle)
  qed
  have 3: "unat (getDroppedFrames r) + unat numSamples < 2 ^ 64 \<longrightarrow>
             unat (getDroppedFrames r) \<le> unat (getDroppedFrames ?r')"
  proof
    assume a: "unat (getDroppedFrames r) + unat numSamples < 2 ^ 64"
    then have "unat (m_droppedFrames r + numSamples) = unat (m_droppedFrames r) + unat numSamples"
      by (simp add: getDroppedFrames_def unat_word_ariths)
    then show "unat (getDroppedFrames r) \<le> unat (getDroppedFrames ?r')"
      by (simp add: pushAudioFrame_def Let_def getDroppedFrames_def)
  qed
  have C: "unat RING_BUFFER_SIZE - 1 = 959999"
    by (simp add: unat_RING_BUFFER_SIZE)
  show ?thesis
    unfolding Let_def C using 1 2 3 by blast
qed

lemma rec_example_inv: "ring_inv rec_example"
  by (simp add: ring_inv_def rec_example_def RING_BUFFER_SIZE_def)

lemma rec_example_used: "ring_used rec_example = 959994"
  by (simp add: ring_used_def writer_available_def rec_example_def)

theorem ring_capacity_invariant_witness:
  "ring_inv (pushAudioFrame [1, 2] [3, 4] 2 rec_example) \<and>
   ring_used rec_example = 959994 \<and>
   ring_used (pushAudioFrame [1, 2] [3, 4] 2 rec_example) = 959998 \<and>
   m_writePos (pushAudioFrame [1, 2] [3, 4] 2 rec_example) = 2 \<and>
   \<not> ring_full (pushAudioFrame [1, 2] [3, 4] 2 rec_example) \<and>
   \<not> ring_empty (pushAudioFrame [1, 2] [3, 4] 2 rec_example)"
proof -
  have n: "2 * unat (2 :: size_t) < (2::nat) ^ 64" by simp
  have wp: "m_writePos (pushAudioFrame [1, 2] [3, 4] 2 rec_example) = 2"
    by code_simp
  have rec: "m_recording rec_example" by (simp add: rec_example_def)
  show ?thesis
    using ring_capacity_invariant [OF rec_example_inv n, of "[1, 2]" "[3, 4]"] wp rec
    by (simp add: Let_def rec_example_used unat_RING_BUFFER_SIZE)
qed

theorem ring_size_not_power_of_two:
  "\<not> is_power_of_two (unat RING_BUFFER_SIZE) \<and>
   2 ^ 19 < unat RING_BUFFER_SIZE \<and> unat RING_BUFFER_SIZE < 2 ^ 20"
  by (simp add: RING_BUFFER_SIZE_def)

lemma is_power_of_two_power: "is_power_of_two (2 ^ k)"
proof (induction k)
  case 0
  show ?case by simp
next
  case (Suc k)
  have "(2::nat) ^ Suc k > 1" by (simp add: Suc_lessI)
  then show ?case using Suc by (subst is_power_of_two.simps) simp
qed

lemma is_power_of_two_iff: "is_power_of_two n = (\<exists>k. n = 2 ^ k)"
proof
  show "is_power_of_two n \<Longrightarrow> \<exists>k. n = 2 ^ k"
  proof (induction n rule: is_power_of_two.induct)
    case (1 n)
    show ?case
    proof (cases "n \<le> 1")
      case True
      then have "n = 2 ^ 0" using "1.prems" by (subst (asm) is_power_of_two.simps) simp
      then show ?thesis by blast
    next
      case False
      then have ev: "n mod 2 = 0" and half: "is_power_of_two (n div 2)"
        using "1.prems" by (subst (asm) is_power_of_two.simps, simp)+
      obtain k where "n div 2 = 2 ^ k" using "1.IH" [OF False half] by blast
      then have "n = 2 ^ Suc k" using ev by auto
      then show ?thesis by blast
    qed
  qed
next
  show "\<exists>k. n = 2 ^ k \<Longrightarrow> is_power_of_two n"
    using is_power_of_two_power by blast
qed

theorem pushAudioFrame_drops_on_overflow_witness:
  "pushAudioFrame [1, 2, 3] [4, 5, 6] 3 rec_example = rec_example\<lparr>m_droppedFrames := 10\<rparr> \<and>
   getDroppedFrames (pushAudioFrame [1, 2, 3] [4, 5, 6] 3 rec_example) = 10 \<and>
   unat (getDroppedFrames rec_example) \<le> unat (getDroppedFrames (pushAudioFrame [1, 2, 3] [4, 5, 6] 3 rec_example))"
proof -
  have n: "2 * unat (3 :: size_t) < (2::nat) ^ 64" by simp
  have rec: "m_recording rec_example" by (simp add: rec_example_def)
  have d: "m_droppedFrames rec_example = 7" by (simp add: rec_example_def)
  show ?thesis
    using pushAudioFrame_drops_on_overflow [OF rec_example_inv n, of "[1, 2, 3]" "[4, 5, 6]"] rec d
    by (simp add: Let_def rec_example_used unat_RING_BUFFER_SIZE getDroppedFrames_def)
qed

lemma startRecording_inv:
  "\<not> m_recording r \<Longrightarrow> ring_inv (fst (startRecording stamp now filename sampleRate r))"
  by (simp add: startRecording_def Let_def ring_inv_def RING_BUFFER_SIZE_def)

lemma read_loop_pos:
  "rp < RING_BUFFER_SIZE \<Longrightarrow>
     unat (snd (read_loop k buf rp batch)) = (unat rp + k) mod 960000"
proof (induction k arbitrary: rp batch)
  case 0
  then show ?case by (simp add: ring_lt_iff)
next
  case (Suc k)
  have "unat ((rp + 1) mod RING_BUFFER_SIZE) = (unat rp + 1) mod 960000"
    using Suc.prems by (rule unat_ring_succ)
  then show ?case
    using Suc.IH [OF ring_succ_lt, of rp "batch @ [buf rp]"] by (simp add: mod_simps)
qed

lemma read_loop_length: "length (fst (read_loop k buf rp batch)) = length batch + k"
  by (induction k arbitrary: rp batch) simp_all

lemma used_after_read:
  fixes wp rp t :: nat
  assumes "wp < 960000" "rp < 960000"
    and "t \<le> (if rp \<le> wp then wp - rp else 960000 - rp + wp)"
  shows "(if (rp + t) mod 960000 \<le> wp then wp - (rp + t) mod 960000
          else 960000 - (rp + t) mod 960000 + wp)
         = (if rp \<le> wp then wp - rp else 960000 - rp + wp) - t"
proof (cases "rp + t < 960000")
  case True
  then show ?thesis using assms by (auto split: if_splits)
next
  case False
  have "rp + t < 2 * 960000" using assms by (auto split: if_splits)
  then have "(rp + t) mod 960000 = rp + t - 960000"
    using False by (simp add: mod_if)
  then show ?thesis using assms False by (auto split: if_splits)
qed

lemma writer_round_inv:
  assumes "ring_inv r"
  shows "ring_inv (fst (writer_round r)) \<and>
         m_writePos (fst (writer_round r)) = m_writePos r \<and>
         length (snd (writer_round r)) = min (ring_used r) 32768 \<and>
         ring_used (fst (writer_round r)) = ring_used r - length (snd (writer_round r))"
proof (cases "writer_available (m_writePos r) (m_readPos r) = 0")
  case True
  then show ?thesis using assms by (simp add: writer_round_def ring_used_def)
next
  case False
  let ?t = "min (writer_available (m_writePos r) (m_readPos r)) BATCH_SIZE"
  let ?res = "read_loop (unat ?t) (m_ringBuffer r) (m_readPos r) []"
  have r': "writer_round r = (r\<lparr>m_readPos := snd ?res\<rparr>, fst ?res)"
    using False by (simp add: writer_round_def Let_def)
  have b: "m_writePos r < RING_BUFFER_SIZE" "m_readPos r < RING_BUFFER_SIZE"
    "unat (m_writePos r) < 960000" "unat (m_readPos r) < 960000"
    using assms by (simp_all add: ring_inv_def ring_lt_iff)
  have t: "unat ?t = min (ring_used r) 32768"
    by (simp add: ring_used_def BATCH_SIZE_def min_def word_le_nat_alt)
  have rp: "unat (snd ?res) = (unat (m_readPos r) + unat ?t) mod 960000"
    using b(2) by (rule read_loop_pos)
  have inv': "ring_inv (r\<lparr>m_readPos := snd ?res\<rparr>)"
    using b(1) by (simp add: ring_inv_def ring_lt_iff rp)
  define T where "T = min (ring_used r) 32768"
  have rpT: "unat (snd ?res) = (unat (m_readPos r) + T) mod 960000"
    using rp t by (simp add: T_def)
  have u: "ring_used r = (if unat (m_readPos r) \<le> unat (m_writePos r)
                          then unat (m_writePos r) - unat (m_readPos r)
                          else 960000 - unat (m_readPos r) + unat (m_writePos r))"
    using assms by (rule ring_used_alt)
  have u': "ring_used (r\<lparr>m_readPos := snd ?res\<rparr>) =
      (if (unat (m_readPos r) + T) mod 960000 \<le> unat (m_writePos r)
       then unat (m_writePos r) - (unat (m_readPos r) + T) mod 960000
       else 960000 - (unat (m_readPos r) + T) mod 960000 + unat (m_writePos r))"
    by (simp add: ring_used_alt [OF inv'] rpT)
  have "T \<le> ring_used r" by (simp add: T_def)
  then have "T \<le> (if unat (m_readPos r) \<le> unat (m_writePos r)
                    then unat (m_writePos r) - unat (m_readPos r)
                    else 960000 - unat (m_readPos r) + unat (m_writePos r))"
    by (simp only: u [symmetric])
  with b(3,4) have "ring_used (r\<lparr>m_readPos := snd ?res\<rparr>) = ring_used r - T"
    unfolding u' u by (rule used_after_read)
  then have "ring_used (r\<lparr>m_readPos := snd ?res\<rparr>) = ring_used r - unat ?t"
    using t by (simp add: T_def)
  then show ?thesis
    using inv' t by (simp add: r' read_loop_length)
qed

subsection \<open>startRecording during a recording\<close>

text \<open>
  Claim C9. \<open>startRecording\<close> called while a recording is active returns the empty
  string and leaves the recorder as it was: file path, ring positions, dropped-frames
  counter, start time and writer thread are those of the running recording.
\<close>

theorem startRecording_while_recording:
  assumes "isRecording r"
  shows "startRecording stamp now filename sampleRate r = (r, [])"
  using assms by (simp add: startRecording_def isRecording_def)

theorem startRecording_while_recording_witness:
  "isRecording rec_example \<and>
   startRecording ''recording-2026-01-01-120000.wav'' 250 ''second'' 44100 rec_example
     = (rec_example, [])"
proof -
  have r: "isRecording rec_example" by (simp add: isRecording_def rec_example_def)
  show ?thesis
    using r startRecording_while_recording [OF r, of "''recording-2026-01-01-120000.wav''" 250 "''second''" 44100]
    by simp
qed

lemma startRecording_idle:
  assumes "\<not> isRecording r"
  shows "isRecording (fst (startRecording stamp now filename sampleRate r)) \<and>
         m_writePos (fst (startRecording stamp now filename sampleRate r)) = 0 \<and>
         m_readPos (fst (startRecording stamp now filename sampleRate r)) = 0 \<and>
         getDroppedFrames (fst (startRecording stamp now filename sampleRate r)) = 0 \<and>
         snd (startRecording stamp now filename sampleRate r)
           = getCurrentFilePath (fst (startRecording stamp now filename sampleRate r))"
  using assms
  by (simp add: startRecording_def isRecording_def getDroppedFrames_def getCurrentFilePath_def Let_def)

section \<open>Properties of the WAV writer\<close>

subsection \<open>The stream\<close>

lemma ofstream_write_append:
  "put_pos f = length (contents f) \<Longrightarrow>
     ofstream_write bs f = f\<lparr>contents := contents f @ bs, put_pos := length (contents f) + length bs\<rparr>"
  by (simp add: ofstream_write_def)

lemma ofstream_write_twice:
  assumes "put_pos f \<le> length (contents f)"
  shows "ofstream_write b (ofstream_write a f) = ofstream_write (a @ b) f"
  using assms by (simp add: ofstream_write_def min_def ac_simps)

lemma ofstream_write_nil: "put_pos f \<le> length (contents f) \<Longrightarrow> ofstream_write [] f = f"
  by (simp add: ofstream_write_def)

lemma ofstream_write_inside:
  "put_pos f \<le> length (contents f) \<Longrightarrow>
     put_pos (ofstream_write bs f) \<le> length (contents (ofstream_write bs f))"
  by (simp add: ofstream_write_def)

lemma ofstream_write_chunks:
  "put_pos f \<le> length (contents f) \<Longrightarrow>
     foldl (\<lambda>f bs. ofstream_write bs f) f chunks = ofstream_write (concat chunks) f"
proof (induction chunks arbitrary: f)
  case Nil
  then show ?case by (simp add: ofstream_write_nil)
next
  case (Cons c chunks)
  have "foldl (\<lambda>f bs. ofstream_write bs f) (ofstream_write c f) chunks
          = ofstream_write (concat chunks) (ofstream_write c f)"
    using Cons.prems by (intro Cons.IH ofstream_write_inside)
  then show ?case using Cons.prems by (simp add: ofstream_write_twice)
qed

subsection \<open>Little-endian fields\<close>

lemma le_value_bytes32: "le_value (le_bytes32 w) = unat w"
proof -
  define x where "x = unat w"
  have lt: "x < 2 ^ 32" unfolding x_def using unsigned_less [of w] by simp
  have b0: "unat (ucast w :: byte) = x mod 256"
    by (simp add: x_def unsigned_ucast_eq take_bit_eq_mod)
  have b1: "unat (ucast (drop_bit 8 w) :: byte) = x div 256 mod 256"
    by (simp add: x_def unsigned_ucast_eq take_bit_eq_mod unat_drop_bit_eq drop_bit_eq_div unat_div_distrib)
  have b2: "unat (ucast (drop_bit 16 w) :: byte) = x div 65536 mod 256"
    by (simp add: x_def unsigned_ucast_eq take_bit_eq_mod unat_drop_bit_eq drop_bit_eq_div unat_div_distrib)
  have b3: "unat (ucast (drop_bit 24 w) :: byte) = x div 16777216 mod 256"
    by (simp add: x_def unsigned_ucast_eq take_bit_eq_mod unat_drop_bit_eq drop_bit_eq_div unat_div_distrib)
  define q1 q2 q3 where "q1 = x div 256" and "q2 = q1 div 256" and "q3 = q2 div 256"
  have e2: "x div 65536 = q2" and e3: "x div 16777216 = q3"
    by (simp_all add: q1_def q2_def q3_def div_mult2_eq [symmetric])
  have "q3 < 256" using lt unfolding e3 [symmetric] by simp
  then have m3: "q3 mod 256 = q3" by simp
  define r0 r1 r2 where "r0 = x mod 256" and "r1 = q1 mod 256" and "r2 = q2 mod 256"
  have d0: "x = r0 + 256 * q1" by (simp add: q1_def r0_def)
  have d1: "q1 = r1 + 256 * q2" by (simp add: q2_def r1_def)
  have d2: "q2 = r2 + 256 * q3" by (simp add: q3_def r2_def)
  have "r0 + 256 * (r1 + 256 * (r2 + 256 * q3)) = x"
    by (simp only: d2 [symmetric] d1 [symmetric] d0 [symmetric])
  then have "x mod 256 + 256 * (q1 mod 256 + 256 * (q2 mod 256 + 256 * (q3 mod 256))) = x"
    by (simp only: m3 r0_def r1_def r2_def)
  then have "x mod 256 + 256 * (x div 256 mod 256 + 256 * (x div 65536 mod 256 + 256 * (x div 16777216 mod 256))) = x"
    by (simp only: e2 e3 flip: q1_def)
  moreover have "x div 16777216 mod 256 = x div 16777216"
    using m3 by (simp only: e3)
  ultimately show ?thesis
    by (simp add: le_value_def le_bytes32_def b0 b1 b2 b3 flip: x_def)
qed

lemma length_le_bytes [simp]: "length (le_bytes32 w) = 4" "length (le_bytes16 v) = 2"
  by (simp_all add: le_bytes32_def le_bytes16_def)

lemma length_ascii [simp]: "length (ascii s) = length s"
  by (simp add: ascii_def)

subsection \<open>Sample conversion\<close>

lemma clamp_sample_Finite: "clamp_sample (Finite v) = Finite (max (- 1) (min 1 v))"
  by (simp add: clamp_sample_def std_min_def std_max_def max_def min_def)

lemma clamp_sample_other:
  "clamp_sample PlusInf = Finite 1" "clamp_sample MinusInf = Finite (- 1)" "clamp_sample NaN = Finite 1"
  by (simp_all add: clamp_sample_def std_min_def std_max_def)

lemma clamp_sample_range: "\<exists>v. clamp_sample x = Finite v \<and> - 1 \<le> v \<and> v \<le> 1"
  by (cases x) (simp_all add: clamp_sample_Finite clamp_sample_other)

lemma trunc_toward_zero_bound:
  assumes "rounding rnd" "- 1 \<le> v" "v \<le> 1"
  shows "- 32767 \<le> trunc_toward_zero (rnd (v * 32767)) \<and>
         trunc_toward_zero (rnd (v * 32767)) \<le> 32767"
proof -
  have mono: "\<And>x y. x \<le> y \<Longrightarrow> rnd x \<le> rnd y"
    and fx: "rnd 32767 = 32767" "rnd (- 32767) = - 32767"
    using assms(1) by (simp_all add: rounding_def)
  have "v * 32767 \<le> 32767" "- 32767 \<le> v * 32767" using assms(2,3) by simp_all
  then have "rnd (v * 32767) \<le> 32767" "- 32767 \<le> rnd (v * 32767)"
    using mono [of "v * 32767" 32767] mono [of "- 32767" "v * 32767"] fx by simp_all
  then show ?thesis
    by (auto simp: trunc_toward_zero_def le_floor_iff floor_le_iff ceiling_le_iff le_ceiling_iff)
qed

lemma pcm_of_sample_range:
  assumes "rounding rnd"
  shows "\<exists>v. clamp_sample x = Finite v \<and> - 1 \<le> v \<and> v \<le> 1 \<and>
       float_mul rnd (clamp_sample x) (Finite 32767) = Finite (rnd (v * 32767)) \<and>
       sint (pcm_of_sample rnd x) = trunc_toward_zero (rnd (v * 32767)) \<and>
       - 32767 \<le> sint (pcm_of_sample rnd x) \<and> sint (pcm_of_sample rnd x) \<le> 32767"
proof -
  obtain v where v: "clamp_sample x = Finite v" "- 1 \<le> v" "v \<le> 1"
    using clamp_sample_range by blast
  let ?k = "trunc_toward_zero (rnd (v * 32767))"
  have k: "- 32767 \<le> ?k \<and> ?k \<le> 32767" using assms v(2,3) by (rule trunc_toward_zero_bound)
  have "sint (word_of_int ?k :: 16 word) = ?k"
    using k by (simp add: sint_sbintrunc' signed_take_bit_int_eq_self)
  then show ?thesis using v k by (simp add: pcm_of_sample_def)
qed

subsection \<open>The header\<close>

lemma length_header_bytes: "length (header_bytes w) = 44"
  by (simp add: header_bytes_def)

lemma header_chunk_field: "take 4 (drop 4 (header_bytes w @ rest)) = le_bytes32 (36 + m_dataSize w)"
  by (simp add: header_bytes_def)

lemma header_data_field: "take 4 (drop 40 (header_bytes w @ rest)) = le_bytes32 (m_dataSize w)"
  by (simp add: header_bytes_def)

lemma writeHeader_eq:
  assumes "put_pos (m_file w) \<le> length (contents (m_file w))"
  shows "writeHeader w = w\<lparr>m_file := ofstream_write (header_bytes w) (m_file w)\<rparr>"
  unfolding writeHeader_def Let_def
  by (subst ofstream_write_chunks [OF assms]) (simp add: header_bytes_def)

subsection \<open>The writer's state during a session\<close>

lemma ofstream_open_True: "ofstream_open True f = \<lparr>is_open = True, contents = [], put_pos = 0\<rparr>"
  by (simp add: ofstream_open_def)

lemma WAVWriter_open_state: "wav_state rnd sr ch [] (fst (WAVWriter_open True sr ch w))"
  by (simp add: WAVWriter_open_def Let_def ofstream_open_True writeHeader_eq ofstream_write_def
      wav_state_def length_header_bytes pcm_bytes_def)

lemma length_pcm_bytes: "length (pcm_bytes rnd xs) = 2 * length xs"
  by (induction xs) (simp_all add: pcm_bytes_def)

lemma pcm_bytes_append: "pcm_bytes rnd (xs @ ys) = pcm_bytes rnd xs @ pcm_bytes rnd ys"
  by (simp add: pcm_bytes_def)

lemma write_loop_append:
  "put_pos f = length (contents f) \<Longrightarrow>
     write_loop rnd k i data f =
       f\<lparr>contents := contents f @ pcm_bytes rnd (map (\<lambda>j. data ! j) [i ..< i + k]),
         put_pos := length (contents f) + 2 * k\<rparr>"
proof (induction k arbitrary: i f)
  case 0
  then show ?case by (simp add: pcm_bytes_def)
next
  case (Suc k)
  let ?f = "ofstream_write (le_bytes16 (pcm_of_sample rnd (data ! i))) f"
  have f: "?f = f\<lparr>contents := contents f @ le_bytes16 (pcm_of_sample rnd (data ! i)),
                   put_pos := length (contents f) + 2\<rparr>"
    using Suc.prems by (simp add: ofstream_write_append)
  have "[i ..< i + Suc k] = i # [Suc i ..< Suc i + k]"
    by (simp add: upt_conv_Cons)
  then have "pcm_bytes rnd (map (\<lambda>j. data ! j) [i ..< i + Suc k])
               = le_bytes16 (pcm_of_sample rnd (data ! i)) @ pcm_bytes rnd (map (\<lambda>j. data ! j) [Suc i ..< Suc i + k])"
    by (simp add: pcm_bytes_def)
  moreover have "write_loop rnd k (Suc i) data ?f =
      ?f\<lparr>contents := contents ?f @ pcm_bytes rnd (map (\<lambda>j. data ! j) [Suc i ..< Suc i + k]),
         put_pos := length (contents ?f) + 2 * k\<rparr>"
    by (rule Suc.IH) (simp add: f)
  ultimately show ?case by (simp add: f Let_def)
qed

lemma dataSize_step:
  "(ucast (ucast (of_nat a :: uint32_t) + t * 2 :: size_t) :: uint32_t) = of_nat (a + 2 * unat t)"
proof -
  have d: "(2::nat) ^ 32 dvd 2 ^ 64" by (rule le_imp_power_dvd) simp
  have 1: "unat (ucast (of_nat a :: uint32_t) :: size_t) = a mod 2 ^ 32"
    by (simp add: unsigned_ucast_eq unat_of_nat take_bit_eq_mod)
  have 2: "unat (t * 2) = (unat t * 2) mod 2 ^ 64"
    by (simp add: unat_word_ariths)
  have "unat (ucast (ucast (of_nat a :: uint32_t) + t * 2 :: size_t) :: uint32_t)
          = ((a mod 2 ^ 32 + (unat t * 2) mod 2 ^ 64) mod 2 ^ 64) mod 2 ^ 32"
    unfolding 1 [symmetric] 2 [symmetric]
    by (simp add: unsigned_ucast_eq take_bit_eq_mod unat_word_ariths)
  also have "\<dots> = (a mod 2 ^ 32 + (unat t * 2) mod 2 ^ 64) mod 2 ^ 32"
    using d by (rule mod_mod_cancel)
  also have "\<dots> = (a mod 2 ^ 32 + ((unat t * 2) mod 2 ^ 64) mod 2 ^ 32) mod 2 ^ 32"
    by (simp only: mod_add_right_eq)
  also have "((unat t * 2) mod 2 ^ 64) mod 2 ^ 32 = (unat t * 2) mod 2 ^ 32"
    using d by (rule mod_mod_cancel)
  also have "(a mod 2 ^ 32 + (unat t * 2) mod 2 ^ 32) mod 2 ^ 32 = (a + 2 * unat t) mod 2 ^ 32"
    by (simp add: mod_add_eq mult.commute)
  also have "\<dots> = unat (of_nat (a + 2 * unat t) :: uint32_t)"
    by (subst unat_of_nat) simp
  finally show ?thesis by (simp only: word_unat_eq_iff)
qed

lemma WAVWriter_write_state:
  assumes "wav_state rnd sr ch xs w"
  shows "wav_state rnd sr ch (xs @ batch_samples ch b) (WAVWriter_write rnd (fst b) (snd b) w)"
proof -
  let ?n = "unat (snd b * ucast ch :: size_t)"
  let ?f = "m_file w"
  have st: "is_open ?f" "wav_m_sampleRate w = sr" "m_numChannels w = ch"
    "m_dataSize w = of_nat (2 * length xs)" "put_pos ?f = length (contents ?f)"
    "length (contents ?f) = 44 + 2 * length xs" "drop 44 (contents ?f) = pcm_bytes rnd xs"
    using assms by (simp_all add: wav_state_def)
  have len: "length (batch_samples ch b) = ?n"
    by (simp add: batch_samples_def)
  have loop: "write_loop rnd ?n 0 (fst b) ?f =
      ?f\<lparr>contents := contents ?f @ pcm_bytes rnd (batch_samples ch b),
         put_pos := length (contents ?f) + 2 * ?n\<rparr>"
    using write_loop_append [OF st(5), of rnd ?n 0 "fst b"] by (simp add: batch_samples_def)
  have size: "(ucast (ucast (m_dataSize w) + snd b * ucast ch * 2 :: size_t) :: uint32_t)
                = of_nat (2 * length (xs @ batch_samples ch b))"
    unfolding st(4) dataSize_step by (simp add: len)
  have w': "WAVWriter_write rnd (fst b) (snd b) w =
      w\<lparr>m_file := ?f\<lparr>contents := contents ?f @ pcm_bytes rnd (batch_samples ch b),
                       put_pos := length (contents ?f) + 2 * ?n\<rparr>,
        m_dataSize := of_nat (2 * length (xs @ batch_samples ch b))\<rparr>"
    using st(1) by (simp only: WAVWriter_write_def Let_def st(3) loop size) simp
  show ?thesis
    unfolding w' wav_state_def
    using st by (simp add: length_pcm_bytes len pcm_bytes_append)
qed

lemma write_all_state:
  "wav_state rnd sr ch xs w \<Longrightarrow>
     wav_state rnd sr ch (xs @ session_samples ch batches) (write_all rnd batches w)"
proof (induction batches arbitrary: xs w)
  case Nil
  then show ?case by (simp add: write_all_def session_samples_def)
next
  case (Cons b batches)
  have "wav_state rnd sr ch ((xs @ batch_samples ch b) @ session_samples ch batches)
          (write_all rnd batches (WAVWriter_write rnd (fst b) (snd b) w))"
    using Cons.prems by (intro Cons.IH WAVWriter_write_state)
  then show ?case by (simp add: write_all_def session_samples_def)
qed

lemma WAVWriter_close_state:
  assumes "wav_state rnd sr ch xs w"
  shows "contents (m_file (WAVWriter_close w)) = header_bytes w @ pcm_bytes rnd xs"
    and "\<not> is_open (m_file (WAVWriter_close w))"
proof -
  let ?f = "m_file w"
  have st: "is_open ?f" "length (contents ?f) = 44 + 2 * length xs"
    "drop 44 (contents ?f) = pcm_bytes rnd xs"
    using assms by (simp_all add: wav_state_def)
  let ?w1 = "w\<lparr>m_file := seekp 0 ?f\<rparr>"
  have hb: "\<And>g. header_bytes (w\<lparr>m_file := g\<rparr>) = header_bytes w"
    by (simp add: header_bytes_def)
  have "writeHeader ?w1 = ?w1\<lparr>m_file := ofstream_write (header_bytes w) (seekp 0 ?f)\<rparr>"
    using writeHeader_eq [of ?w1] by (simp add: seekp_def hb)
  then have c: "WAVWriter_close w =
      w\<lparr>m_file := ofstream_close (ofstream_write (header_bytes w) (seekp 0 ?f)), m_dataSize := 0\<rparr>"
    using st(1) by (simp add: WAVWriter_close_def Let_def)
  show "contents (m_file (WAVWriter_close w)) = header_bytes w @ pcm_bytes rnd xs"
    unfolding c using st
    by (simp add: ofstream_close_def ofstream_write_def seekp_def length_header_bytes)
  show "\<not> is_open (m_file (WAVWriter_close w))"
    unfolding c by (simp add: ofstream_close_def)
qed

lemma wav_session_file:
  "\<exists>w'. wav_state rnd sampleRate numChannels (session_samples numChannels batches) w' \<and>
        contents (m_file (wav_session rnd sampleRate numChannels batches w))
          = header_bytes w' @ pcm_bytes rnd (session_samples numChannels batches) \<and>
        \<not> is_open (m_file (wav_session rnd sampleRate numChannels batches w))"
proof -
  let ?w' = "write_all rnd batches (fst (WAVWriter_open True sampleRate numChannels w))"
  have "wav_state rnd sampleRate numChannels ([] @ session_samples numChannels batches) ?w'"
    using WAVWriter_open_state by (rule write_all_state)
  then have st: "wav_state rnd sampleRate numChannels (session_samples numChannels batches) ?w'"
    by simp
  show ?thesis
    using st WAVWriter_close_state [OF st] unfolding wav_session_def by blast
qed

lemma unat_of_nat32: "unat (of_nat n :: uint32_t) = n mod 2 ^ 32"
  by (subst unat_of_nat) simp

lemma wav_session_fields:
  "let file = contents (m_file (wav_session rnd sampleRate numChannels batches w));
       xs = session_samples numChannels batches
   in \<not> is_open (m_file (wav_session rnd sampleRate numChannels batches w)) \<and>
      length file = 44 + 2 * length xs \<and>
      drop 44 file = pcm_bytes rnd xs \<and>
      riff_chunk_size file = (36 + 2 * length xs) mod 2 ^ 32 \<and>
      data_chunk_size file = (2 * length xs) mod 2 ^ 32"
proof -
  let ?file = "contents (m_file (wav_session rnd sampleRate numChannels batches w))"
  let ?xs = "session_samples numChannels batches"
  obtain w' where st: "wav_state rnd sampleRate numChannels ?xs w'"
    and fl: "?file = header_bytes w' @ pcm_bytes rnd ?xs"
    and closed: "\<not> is_open (m_file (wav_session rnd sampleRate numChannels batches w))"
    using wav_session_file by blast
  have size: "m_dataSize w' = of_nat (2 * length ?xs)"
    using st by (simp add: wav_state_def)
  have len: "length ?file = 44 + 2 * length ?xs"
    by (simp add: fl length_header_bytes length_pcm_bytes)
  have data: "drop 44 ?file = pcm_bytes rnd ?xs"
    by (simp add: fl length_header_bytes)
  have "(36 :: uint32_t) + of_nat (2 * length ?xs) = of_nat (36 + 2 * length ?xs)"
    by simp
  then have riff: "riff_chunk_size ?file = (36 + 2 * length ?xs) mod 2 ^ 32"
    unfolding riff_chunk_size_def fl header_chunk_field le_value_bytes32 size
    by (simp only: unat_of_nat32)
  have dat: "data_chunk_size ?file = (2 * length ?xs) mod 2 ^ 32"
    unfolding data_chunk_size_def fl header_data_field le_value_bytes32 size
    by (simp only: unat_of_nat32)
  show ?thesis
    unfolding Let_def using closed len data riff dat by blast
qed

lemma sample_conversion:
  assumes "rounding rnd"
  shows "\<exists>v. clamp_sample x = Finite v \<and> - 1 \<le> v \<and> v \<le> 1 \<and>
       (\<forall>r. x = Finite r \<longrightarrow> v = max (- 1) (min 1 r)) \<and>
       sint (pcm_of_sample rnd x) = trunc_toward_zero (rnd (v * 32767))"
proof -
  obtain v where v: "clamp_sample x = Finite v" "- 1 \<le> v" "v \<le> 1"
    "sint (pcm_of_sample rnd x) = trunc_toward_zero (rnd (v * 32767))"
    using pcm_of_sample_range [OF assms, of x] by blast
  then have "\<forall>r. x = Finite r \<longrightarrow> v = max (- 1) (min 1 r)"
    by (auto simp: clamp_sample_Finite)
  with v show ?thesis by blast
qed

text \<open>
  Claim C5 (amended). In the file a session of the writer leaves (open, any number of
  writes, close), the 44-byte header is followed by the PCM bytes of the samples
  written, two bytes per sample in little-endian order. Every sample is converted by
  clamping to \<open>[-1, 1]\<close> (a NaN becomes 1), scaling by 32767 (a float product, rounded by
  \<open>rnd\<close>) and truncating towards zero to an \<^verbatim>\<open>int16_t\<close>. When \<open>36 +\<close> the number of data
  bytes is below \<open>2^32\<close>, the RIFF chunk size of the header is 36 plus the number of data
  bytes and the data chunk size is the number of data bytes. (The fields are
  \<^verbatim>\<open>uint32_t\<close>: beyond that bound they hold the lengths modulo \<open>2^32\<close>, see
  \<open>wav_session_fields\<close> and \<open>wav_header_wraps_at_4GiB\<close>.)
\<close>

theorem wav_header_lengths:
  "let file = contents (m_file (wav_session rnd sampleRate numChannels batches w));
       xs = session_samples numChannels batches
   in \<not> is_open (m_file (wav_session rnd sampleRate numChannels batches w)) \<and>
      length file = 44 + 2 * length xs \<and>
      drop 44 file = pcm_bytes rnd xs \<and>
      (rounding rnd \<longrightarrow>
         (\<forall>x. \<exists>v. clamp_sample x = Finite v \<and> - 1 \<le> v \<and> v \<le> 1 \<and>
            (\<forall>r. x = Finite r \<longrightarrow> v = max (- 1) (min 1 r)) \<and>
            sint (pcm_of_sample rnd x) = trunc_toward_zero (rnd (v * 32767)))) \<and>
      (36 + 2 * length xs < 2 ^ 32 \<longrightarrow>
         riff_chunk_size file = 36 + length (drop 44 file) \<and>
         data_chunk_size file = length (drop 44 file))"
proof -
  let ?file = "contents (m_file (wav_session rnd sampleRate numChannels batches w))"
  let ?xs = "session_samples numChannels batches"
  have f: "\<not> is_open (m_file (wav_session rnd sampleRate numChannels batches w))"
    "length ?file = 44 + 2 * length ?xs" "drop 44 ?file = pcm_bytes rnd ?xs"
    "riff_chunk_size ?file = (36 + 2 * length ?xs) mod 2 ^ 32"
    "data_chunk_size ?file = (2 * length ?xs) mod 2 ^ 32"
    using wav_session_fields [of rnd sampleRate numChannels batches w] by (simp_all add: Let_def)
  have exact: "36 + 2 * length ?xs < 2 ^ 32 \<longrightarrow>
         riff_chunk_size ?file = 36 + length (drop 44 ?file) \<and>
         data_chunk_size ?file = length (drop 44 ?file)"
    unfolding f(3,4,5) length_pcm_bytes by simp
  have conv: "rounding rnd \<longrightarrow>
         (\<forall>x. \<exists>v. clamp_sample x = Finite v \<and> - 1 \<le> v \<and> v \<le> 1 \<and>
            (\<forall>r. x = Finite r \<longrightarrow> v = max (- 1) (min 1 r)) \<and>
            sint (pcm_of_sample rnd x) = trunc_toward_zero (rnd (v * 32767)))"
  proof (intro impI allI)
    fix x
    assume "rounding rnd"
    then show "\<exists>v. clamp_sample x = Finite v \<and> - 1 \<le> v \<and> v \<le> 1 \<and>
            (\<forall>r. x = Finite r \<longrightarrow> v = max (- 1) (min 1 r)) \<and>
            sint (pcm_of_sample rnd x) = trunc_toward_zero (rnd (v * 32767))"
      by (rule sample_conversion)
  qed
  show ?thesis
    unfolding Let_def
    by (intro conjI) (rule f(1) f(2) f(3) conv exact)+
qed

lemma length_session_samples:
  "length (session_samples ch batches) = sum_list (map (\<lambda>b. unat (snd b * ucast ch :: size_t)) batches)"
  by (induction batches) (simp_all add: session_samples_def batch_samples_def)

theorem wav_header_lengths_witness:
  "rounding (\<lambda>x. x) \<and>
   riff_chunk_size (contents (m_file
      (wav_session (\<lambda>x. x) 48000 2 [([Finite (1 / 2), Finite (- 2)], 1)] WAVWriter_new))) = 40 \<and>
   data_chunk_size (contents (m_file
      (wav_session (\<lambda>x. x) 48000 2 [([Finite (1 / 2), Finite (- 2)], 1)] WAVWriter_new))) = 4 \<and>
   length (contents (m_file
      (wav_session (\<lambda>x. x) 48000 2 [([Finite (1 / 2), Finite (- 2)], 1)] WAVWriter_new))) = 48 \<and>
   drop 44 (contents (m_file
      (wav_session (\<lambda>x. x) 48000 2 [([Finite (1 / 2), Finite (- 2)], 1)] WAVWriter_new)))
     = [255, 63, 1, 128] \<and>
   (\<exists>v. clamp_sample (Finite (- 2)) = Finite v \<and> v = - 1 \<and>
        sint (pcm_of_sample (\<lambda>x. x) (Finite (- 2))) = trunc_toward_zero (v * 32767))"
proof -
  have r: "rounding (\<lambda>x. x)" by (simp add: rounding_def)
  have xs: "session_samples 2 [([Finite (1 / 2), Finite (- 2)], 1)] = [Finite (1 / 2), Finite (- 2)]"
    by code_simp
  have p1: "pcm_of_sample (\<lambda>x. x) (Finite (1 / 2)) = 16383"
    by (simp add: pcm_of_sample_def clamp_sample_def std_min_def std_max_def trunc_toward_zero_def)
  have p2: "pcm_of_sample (\<lambda>x. x) (Finite (- 2)) = - 32767"
    by (simp add: pcm_of_sample_def clamp_sample_def std_min_def std_max_def trunc_toward_zero_def)
  have bytes: "pcm_bytes (\<lambda>x. x) [Finite (1 / 2), Finite (- 2)] = [255, 63, 1, 128]"
    by (simp add: pcm_bytes_def p1 p2 le_bytes16_def)
  note T = wav_header_lengths [of "\<lambda>x. x" 48000 2 "[([Finite (1 / 2), Finite (- 2)], 1)]" WAVWriter_new,
      unfolded Let_def xs bytes]
  have conv: "\<exists>v. clamp_sample (Finite (- 2)) = Finite v \<and> v = - 1 \<and>
        sint (pcm_of_sample (\<lambda>x. x) (Finite (- 2))) = trunc_toward_zero (v * 32767)"
  proof -
    from T r obtain v where "clamp_sample (Finite (- 2)) = Finite v"
      "\<forall>r. Finite (- 2) = Finite r \<longrightarrow> v = max (- 1) (min 1 r)"
      "sint (pcm_of_sample (\<lambda>x. x) (Finite (- 2))) = trunc_toward_zero (v * 32767)"
      by blast
    then show ?thesis by auto
  qed
  show ?thesis
    using T r conv by simp
qed

theorem wav_header_wraps_at_4GiB:
  "length (drop 44 (contents (m_file
      (wav_session (\<lambda>x. x) 48000 2 (replicate 65536 (replicate 32768 (Finite 0), 16384)) WAVWriter_new))))
     = 4294967296 \<and>
   data_chunk_size (contents (m_file
      (wav_session (\<lambda>x. x) 48000 2 (replicate 65536 (replicate 32768 (Finite 0), 16384)) WAVWriter_new)))
     = 0 \<and>
   riff_chunk_size (contents (m_file
      (wav_session (\<lambda>x. x) 48000 2 (replicate 65536 (replicate 32768 (Finite 0), 16384)) WAVWriter_new)))
     = 36"
proof -
  let ?batches = "replicate 65536 (replicate 32768 (Finite 0), 16384 :: size_t)"
  have n: "length (session_samples 2 ?batches) = 2147483648"
    by (simp add: length_session_samples sum_list_replicate)
  show ?thesis
    using wav_session_fields [of "\<lambda>x. x" 48000 2 ?batches WAVWriter_new]
    by (simp add: Let_def n length_pcm_bytes)
qed

section \<open>Properties of the backing-track player\<close>

lemma cursor_from_shift:
  "cursor_from s e pos (Suc m) = cursor_from s e ((if pos \<ge> e then s else pos) + 1) m"
proof (induction m)
  case 0
  show ?case by (simp add: Let_def)
next
  case (Suc m)
  show ?case
    by (subst cursor_from.simps(2)) (simp only: Suc.IH, simp add: Let_def)
qed

lemma map_upt_Suc_shift: "map f [0 ..< Suc k] = f 0 # map (\<lambda>m. f (Suc m)) [0 ..< k]"
  by (rule map_upt_Suc)

lemma take_Suc_update: "i < length xs \<Longrightarrow> take (Suc i) (xs[i := a]) = take i xs @ [a]"
  by (simp add: take_Suc_conv_app_nth)

lemma fill_loop_looping:
  assumes "i + k \<le> length outL" "i + k \<le> length outR"
  shows "fill_loop k i n vol True s e pos bt outL outR =
           (bt\<lparr>playbackPosition := (if k = 0 then pos else cursor_from s e pos (k - 1) + 1)\<rparr>,
            take i outL @ map (\<lambda>m. audioDataL bt ! cursor_from s e pos m * vol) [0 ..< k] @ drop (i + k) outL,
            take i outR @ map (\<lambda>m. audioDataR bt ! cursor_from s e pos m * vol) [0 ..< k] @ drop (i + k) outR)"
  using assms
proof (induction k arbitrary: i pos outL outR)
  case 0
  then show ?case by simp
next
  case (Suc k)
  let ?p = "if pos \<ge> e then s else pos"
  let ?L = "outL[i := audioDataL bt ! ?p * vol]"
  let ?R = "outR[i := audioDataR bt ! ?p * vol]"
  have i: "i < length outL" "i < length outR" using Suc.prems by simp_all
  have IH: "fill_loop k (Suc i) n vol True s e (?p + 1) bt ?L ?R =
     (bt\<lparr>playbackPosition := (if k = 0 then ?p + 1 else cursor_from s e (?p + 1) (k - 1) + 1)\<rparr>,
      take (Suc i) ?L @ map (\<lambda>m. audioDataL bt ! cursor_from s e (?p + 1) m * vol) [0 ..< k] @ drop (Suc i + k) ?L,
      take (Suc i) ?R @ map (\<lambda>m. audioDataR bt ! cursor_from s e (?p + 1) m * vol) [0 ..< k] @ drop (Suc i + k) ?R)"
    using Suc.prems by (intro Suc.IH) simp_all
  have pos': "(if k = 0 then ?p + 1 else cursor_from s e (?p + 1) (k - 1) + 1)
                = cursor_from s e pos (Suc k - 1) + 1"
  proof (cases k)
    case 0
    then show ?thesis by simp
  next
    case (Suc k')
    have "cursor_from s e pos (Suc k') = cursor_from s e (?p + 1) k'"
      by (rule cursor_from_shift)
    then show ?thesis using Suc by (simp del: cursor_from.simps)
  qed
  have step: "fill_loop (Suc k) i n vol True s e pos bt outL outR
                = fill_loop k (Suc i) n vol True s e (?p + 1) bt ?L ?R"
    by (simp add: Let_def)
  show ?case
    unfolding step IH pos'
    using i
    by (simp add: map_upt_Suc_shift cursor_from_shift take_Suc_update del: cursor_from.simps(2) upt_Suc)
qed

lemma fill_loop_once:
  assumes "i + k \<le> length outL" "i + k \<le> length outR" "i + k = n"
  shows "fill_loop k i n vol False s e pos bt outL outR =
           ((if k = 0 \<or> pos + k \<le> e then bt\<lparr>playbackPosition := pos + k\<rparr>
             else bt\<lparr>isPlaying := False, playbackPosition := s\<rparr>),
            take i outL @ map (\<lambda>m. if pos + m < e then audioDataL bt ! (pos + m) * vol else 0) [0 ..< k]
              @ drop (i + k) outL,
            take i outR @ map (\<lambda>m. if pos + m < e then audioDataR bt ! (pos + m) * vol else 0) [0 ..< k]
              @ drop (i + k) outR)"
  using assms
proof (induction k arbitrary: i pos outL outR)
  case 0
  then show ?case by simp
next
  case (Suc k)
  show ?case
  proof (cases "pos \<ge> e")
    case True
    have n: "n - i = Suc k" using Suc.prems by simp
    have z: "\<And>f. map (\<lambda>m. if pos + m < e then f m else (0::'a)) [0 ..< Suc k] = replicate (Suc k) 0"
      using True by (simp add: map_replicate_const del: upt_Suc replicate_Suc)
    show ?thesis
      using True by (simp only: z) (simp add: memset_zero_def n)
  next
    case False
    let ?L = "outL[i := audioDataL bt ! pos * vol]"
    let ?R = "outR[i := audioDataR bt ! pos * vol]"
    have i: "i < length outL" "i < length outR" using Suc.prems by simp_all
    have step: "fill_loop (Suc k) i n vol False s e pos bt outL outR
                  = fill_loop k (Suc i) n vol False s e (pos + 1) bt ?L ?R"
      using False by (simp add: Let_def)
    have IH: "fill_loop k (Suc i) n vol False s e (pos + 1) bt ?L ?R =
       ((if k = 0 \<or> pos + 1 + k \<le> e then bt\<lparr>playbackPosition := pos + 1 + k\<rparr>
         else bt\<lparr>isPlaying := False, playbackPosition := s\<rparr>),
        take (Suc i) ?L @ map (\<lambda>m. if pos + 1 + m < e then audioDataL bt ! (pos + 1 + m) * vol else 0) [0 ..< k]
          @ drop (Suc i + k) ?L,
        take (Suc i) ?R @ map (\<lambda>m. if pos + 1 + m < e then audioDataR bt ! (pos + 1 + m) * vol else 0) [0 ..< k]
          @ drop (Suc i + k) ?R)"
      using Suc.prems by (intro Suc.IH) simp_all
    have st: "(if k = 0 \<or> pos + 1 + k \<le> e then bt\<lparr>playbackPosition := pos + 1 + k\<rparr>
               else bt\<lparr>isPlaying := False, playbackPosition := s\<rparr>)
              = (if Suc k = 0 \<or> pos + Suc k \<le> e then bt\<lparr>playbackPosition := pos + Suc k\<rparr>
                 else bt\<lparr>isPlaying := False, playbackPosition := s\<rparr>)"
      using False by auto
    show ?thesis
      unfolding step IH st
      using i False
      by (simp add: map_upt_Suc_shift take_Suc_update del: upt_Suc)
  qed
qed

lemma end_frame_le: "end_frame bt \<le> totalFrames bt"
  by (simp add: end_frame_def)

lemma cursor_from_in_range:
  assumes "s < t" "e \<le> t"
  shows "cursor_from s e pos i < t"
  using assms by (induction i) (auto simp: Let_def)

lemma loop_cursor_in_range:
  "track_inv bt \<Longrightarrow> totalFrames bt \<noteq> 0 \<Longrightarrow> loop_cursor bt i < totalFrames bt"
  unfolding loop_cursor_def
  by (rule cursor_from_in_range) (simp_all add: track_inv_def end_frame_le)

lemma memset_zero_all:
  "n \<le> length xs \<Longrightarrow> memset_zero xs 0 n = replicate n 0 @ drop n xs"
  by (simp add: memset_zero_def)

lemma fillBuffer_silent:
  assumes "\<not> isPlaying bt \<or> totalFrames bt = 0"
  shows "fillBuffer outL outR numFrames bt =
           (bt, memset_zero outL 0 numFrames, memset_zero outR 0 numFrames)"
  using assms by (auto simp: fillBuffer_def)

lemma fillBuffer_looping:
  assumes "isPlaying bt" "totalFrames bt \<noteq> 0" "loopEnabled bt"
    and "numFrames \<le> length outL" "numFrames \<le> length outR"
  shows "fillBuffer outL outR numFrames bt =
           (bt\<lparr>playbackPosition :=
                 (if numFrames = 0 then playbackPosition bt else loop_cursor bt (numFrames - 1) + 1)\<rparr>,
            map (\<lambda>i. audioDataL bt ! loop_cursor bt i * volume bt) [0 ..< numFrames] @ drop numFrames outL,
            map (\<lambda>i. audioDataR bt ! loop_cursor bt i * volume bt) [0 ..< numFrames] @ drop numFrames outR)"
  using assms(1-3) fill_loop_looping [of 0 numFrames outL outR numFrames "volume bt"
      "startFrame bt" "end_frame bt" "playbackPosition bt" bt] assms(4,5)
  by (simp add: fillBuffer_def Let_def loop_cursor_def end_frame_def del: cursor_from.simps)

lemma fillBuffer_once:
  assumes "isPlaying bt" "totalFrames bt \<noteq> 0" "\<not> loopEnabled bt"
    and "numFrames \<le> length outL" "numFrames \<le> length outR"
  shows "fillBuffer outL outR numFrames bt =
           ((if numFrames = 0 \<or> playbackPosition bt + numFrames \<le> end_frame bt
             then bt\<lparr>playbackPosition := playbackPosition bt + numFrames\<rparr>
             else bt\<lparr>isPlaying := False, playbackPosition := startFrame bt\<rparr>),
            map (\<lambda>i. if playbackPosition bt + i < end_frame bt
                      then audioDataL bt ! (playbackPosition bt + i) * volume bt else 0) [0 ..< numFrames]
              @ drop numFrames outL,
            map (\<lambda>i. if playbackPosition bt + i < end_frame bt
                      then audioDataR bt ! (playbackPosition bt + i) * volume bt else 0) [0 ..< numFrames]
              @ drop numFrames outR)"
  using assms(1-3) fill_loop_once [of 0 numFrames outL outR numFrames "volume bt" "startFrame bt"
      "end_frame bt" "playbackPosition bt" bt] assms(4,5)
  by (simp add: fillBuffer_def Let_def end_frame_def)

text \<open>
  Claim C4. \<open>fillBuffer(outL, outR, numFrames)\<close> writes the first \<open>numFrames\<close> samples of
  both buffers and nothing beyond them. If the player is not playing or no track is
  loaded, these samples are zero and the player is unchanged. Otherwise, with the loop
  enabled, output sample \<open>i\<close> is the track sample at the frame cursor \<open>loop_cursor bt i\<close>
  times the volume: the cursor starts at the playback position, advances by one per
  sample, and wraps to the start frame when it reaches the end frame; the playback
  position becomes the frame after the last one read, and for a loaded track every
  frame read exists. With the loop disabled, the samples are the track samples from
  the playback position on, times the volume, up to the end frame; if the block reaches
  past the end frame, the rest of the block is zero, the playing flag is cleared and the
  playback position is the start frame. The end frame is the stop frame, or the end of
  the track when the stop cell is 0 (or not below the track's length).
\<close>

theorem fillBuffer_output:
  assumes "numFrames \<le> length outL" and "numFrames \<le> length outR"
  shows "let res = fillBuffer outL outR numFrames bt;
             bt' = fst res; outL' = fst (snd res); outR' = snd (snd res);
             pos = playbackPosition bt
         in drop numFrames outL' = drop numFrames outL \<and>
            drop numFrames outR' = drop numFrames outR \<and>
            (\<not> isPlaying bt \<or> totalFrames bt = 0 \<longrightarrow>
               bt' = bt \<and>
               take numFrames outL' = replicate numFrames 0 \<and>
               take numFrames outR' = replicate numFrames 0) \<and>
            (isPlaying bt \<and> totalFrames bt \<noteq> 0 \<and> loopEnabled bt \<longrightarrow>
               take numFrames outL' =
                 map (\<lambda>i. audioDataL bt ! loop_cursor bt i * volume bt) [0 ..< numFrames] \<and>
               take numFrames outR' =
                 map (\<lambda>i. audioDataR bt ! loop_cursor bt i * volume bt) [0 ..< numFrames] \<and>
               bt' = bt\<lparr>playbackPosition :=
                         (if numFrames = 0 then pos else loop_cursor bt (numFrames - 1) + 1)\<rparr> \<and>
               (track_inv bt \<longrightarrow> (\<forall>i. loop_cursor bt i < totalFrames bt))) \<and>
            (isPlaying bt \<and> totalFrames bt \<noteq> 0 \<and> \<not> loopEnabled bt \<longrightarrow>
               take numFrames outL' =
                 map (\<lambda>i. if pos + i < end_frame bt then audioDataL bt ! (pos + i) * volume bt else 0)
                   [0 ..< numFrames] \<and>
               take numFrames outR' =
                 map (\<lambda>i. if pos + i < end_frame bt then audioDataR bt ! (pos + i) * volume bt else 0)
                   [0 ..< numFrames] \<and>
               bt' = (if numFrames = 0 \<or> pos + numFrames \<le> end_frame bt
                      then bt\<lparr>playbackPosition := pos + numFrames\<rparr>
                      else bt\<lparr>isPlaying := False, playbackPosition := startFrame bt\<rparr>)) \<and>
            end_frame bt \<le> totalFrames bt \<and>
            (stopFrame bt = 0 \<longrightarrow> end_frame bt = totalFrames bt)"
proof -
  let ?res = "fillBuffer outL outR numFrames bt"
  have untouched: "drop numFrames (fst (snd ?res)) = drop numFrames outL \<and>
                   drop numFrames (snd (snd ?res)) = drop numFrames outR"
  proof (cases "\<not> isPlaying bt \<or> totalFrames bt = 0")
    case True
    show ?thesis
      unfolding fillBuffer_silent [OF True] using assms by (simp add: memset_zero_all)
  next
    case False
    then have p: "isPlaying bt" "totalFrames bt \<noteq> 0" by simp_all
    show ?thesis
    proof (cases "loopEnabled bt")
      case True
      show ?thesis unfolding fillBuffer_looping [OF p True assms] by simp
    next
      case False
      show ?thesis unfolding fillBuffer_once [OF p False assms] by simp
    qed
  qed
  have silent: "\<not> isPlaying bt \<or> totalFrames bt = 0 \<longrightarrow>
      fst ?res = bt \<and> take numFrames (fst (snd ?res)) = replicate numFrames 0 \<and>
      take numFrames (snd (snd ?res)) = replicate numFrames 0"
  proof
    assume a: "\<not> isPlaying bt \<or> totalFrames bt = 0"
    show "fst ?res = bt \<and> take numFrames (fst (snd ?res)) = replicate numFrames 0 \<and>
      take numFrames (snd (snd ?res)) = replicate numFrames 0"
      unfolding fillBuffer_silent [OF a] using assms by (simp add: memset_zero_all)
  qed
  have looping: "isPlaying bt \<and> totalFrames bt \<noteq> 0 \<and> loopEnabled bt \<longrightarrow>
      take numFrames (fst (snd ?res)) =
        map (\<lambda>i. audioDataL bt ! loop_cursor bt i * volume bt) [0 ..< numFrames] \<and>
      take numFrames (snd (snd ?res)) =
        map (\<lambda>i. audioDataR bt ! loop_cursor bt i * volume bt) [0 ..< numFrames] \<and>
      fst ?res = bt\<lparr>playbackPosition :=
                (if numFrames = 0 then playbackPosition bt else loop_cursor bt (numFrames - 1) + 1)\<rparr> \<and>
      (track_inv bt \<longrightarrow> (\<forall>i. loop_cursor bt i < totalFrames bt))"
  proof
    assume a: "isPlaying bt \<and> totalFrames bt \<noteq> 0 \<and> loopEnabled bt"
    then have p: "isPlaying bt" "totalFrames bt \<noteq> 0" "loopEnabled bt" by simp_all
    show "take numFrames (fst (snd ?res)) =
        map (\<lambda>i. audioDataL bt ! loop_cursor bt i * volume bt) [0 ..< numFrames] \<and>
      take numFrames (snd (snd ?res)) =
        map (\<lambda>i. audioDataR bt ! loop_cursor bt i * volume bt) [0 ..< numFrames] \<and>
      fst ?res = bt\<lparr>playbackPosition :=
                (if numFrames = 0 then playbackPosition bt else loop_cursor bt (numFrames - 1) + 1)\<rparr> \<and>
      (track_inv bt \<longrightarrow> (\<forall>i. loop_cursor bt i < totalFrames bt))"
      unfolding fillBuffer_looping [OF p assms] using p(2) by (simp add: loop_cursor_in_range)
  qed
  have once: "isPlaying bt \<and> totalFrames bt \<noteq> 0 \<and> \<not> loopEnabled bt \<longrightarrow>
      take numFrames (fst (snd ?res)) =
        map (\<lambda>i. if playbackPosition bt + i < end_frame bt
                  then audioDataL bt ! (playbackPosition bt + i) * volume bt else 0) [0 ..< numFrames] \<and>
      take numFrames (snd (snd ?res)) =
        map (\<lambda>i. if playbackPosition bt + i < end_frame bt
                  then audioDataR bt ! (playbackPosition bt + i) * volume bt else 0) [0 ..< numFrames] \<and>
      fst ?res = (if numFrames = 0 \<or> playbackPosition bt + numFrames \<le> end_frame bt
                  then bt\<lparr>playbackPosition := playbackPosition bt + numFrames\<rparr>
                  else bt\<lparr>isPlaying := False, playbackPosition := startFrame bt\<rparr>)"
  proof
    assume a: "isPlaying bt \<and> totalFrames bt \<noteq> 0 \<and> \<not> loopEnabled bt"
    then have p: "isPlaying bt" "totalFrames bt \<noteq> 0" "\<not> loopEnabled bt" by simp_all
    show "take numFrames (fst (snd ?res)) =
        map (\<lambda>i. if playbackPosition bt + i < end_frame bt
                  then audioDataL bt ! (playbackPosition bt + i) * volume bt else 0) [0 ..< numFrames] \<and>
      take numFrames (snd (snd ?res)) =
        map (\<lambda>i. if playbackPosition bt + i < end_frame bt
                  then audioDataR bt ! (playbackPosition bt + i) * volume bt else 0) [0 ..< numFrames] \<and>
      fst ?res = (if numFrames = 0 \<or> playbackPosition bt + numFrames \<le> end_frame bt
                  then bt\<lparr>playbackPosition := playbackPosition bt + numFrames\<rparr>
                  else bt\<lparr>isPlaying := False, playbackPosition := startFrame bt\<rparr>)"
      unfolding fillBuffer_once [OF p assms] by simp
  qed
  have ends: "end_frame bt \<le> totalFrames bt \<and> (stopFrame bt = 0 \<longrightarrow> end_frame bt = totalFrames bt)"
    by (simp add: end_frame_def)
  show ?thesis
    unfolding Let_def using untouched silent looping once ends by blast
qed

theorem fillBuffer_output_witness:
  "(let res = fillBuffer [0, 0, 0, 0, 9] [0, 0, 0, 0, 9] 4 track_example
    in fst res = track_example\<lparr>playbackPosition := 2\<rparr> \<and>
       take 4 (fst (snd res)) = [40, 60, 20, 40] \<and> drop 4 (fst (snd res)) = [9] \<and>
       take 4 (snd (snd res)) = [42, 62, 22, 42] \<and> drop 4 (snd (snd res)) = [9]) \<and>
   (let res = fillBuffer [7, 7, 7, 7, 9] [7, 7, 7, 7, 9] 4 (track_example\<lparr>loopEnabled := False\<rparr>)
    in fst res = track_example\<lparr>loopEnabled := False, isPlaying := False, playbackPosition := 0\<rparr> \<and>
       take 4 (fst (snd res)) = [40, 60, 0, 0] \<and> take 4 (snd (snd res)) = [42, 62, 0, 0]) \<and>
   (let res = fillBuffer [7, 7, 7, 7, 9] [7, 7, 7, 7, 9] 4 (track_example\<lparr>isPlaying := False\<rparr>)
    in fst res = track_example\<lparr>isPlaying := False\<rparr> \<and>
       take 4 (fst (snd res)) = [0, 0, 0, 0] \<and> take 4 (snd (snd res)) = [0, 0, 0, 0])"
proof -
  have len: "4 \<le> length [0, 0, 0, 0, 9 :: int]" "4 \<le> length [7, 7, 7, 7, 9 :: int]" by simp_all
  have up: "[0 ..< 4] = [0, 1, 2, 3]" by (simp add: upt_rec)
  have c: "loop_cursor track_example 0 = 1" "loop_cursor track_example (Suc 0) = 2"
    "loop_cursor track_example 2 = 0" "loop_cursor track_example 3 = 1"
    by (simp_all add: loop_cursor_def track_example_def end_frame_def eval_nat_numeral)
  have inv: "track_inv track_example" by (simp add: track_inv_def track_example_def)
  have t: "isPlaying track_example" "loopEnabled track_example" "totalFrames track_example = 3"
    "volume track_example = 2" "playbackPosition track_example = 1"
    "startFrame track_example = 0" "stopFrame track_example = 0"
    "audioDataL track_example = [10, 20, 30]" "audioDataR track_example = [11, 21, 31]"
    by (simp_all add: track_example_def)
  have 1: "let res = fillBuffer [0, 0, 0, 0, 9] [0, 0, 0, 0, 9] 4 track_example
    in fst res = track_example\<lparr>playbackPosition := 2\<rparr> \<and>
       take 4 (fst (snd res)) = [40, 60, 20, 40] \<and> drop 4 (fst (snd res)) = [9] \<and>
       take 4 (snd (snd res)) = [42, 62, 22, 42] \<and> drop 4 (snd (snd res)) = [9]"
    using fillBuffer_output [OF len(1) len(1), of track_example] inv
    by (simp add: Let_def up c t)
  have 2: "let res = fillBuffer [7, 7, 7, 7, 9] [7, 7, 7, 7, 9] 4 (track_example\<lparr>loopEnabled := False\<rparr>)
    in fst res = track_example\<lparr>loopEnabled := False, isPlaying := False, playbackPosition := 0\<rparr> \<and>
       take 4 (fst (snd res)) = [40, 60, 0, 0] \<and> take 4 (snd (snd res)) = [42, 62, 0, 0]"
    using fillBuffer_output [OF len(2) len(2), of "track_example\<lparr>loopEnabled := False\<rparr>"]
    by (simp add: Let_def up end_frame_def t)
  have 3: "let res = fillBuffer [7, 7, 7, 7, 9] [7, 7, 7, 7, 9] 4 (track_example\<lparr>isPlaying := False\<rparr>)
    in fst res = track_example\<lparr>isPlaying := False\<rparr> \<and>
       take 4 (fst (snd res)) = [0, 0, 0, 0] \<and> take 4 (snd (snd res)) = [0, 0, 0, 0]"
    using fillBuffer_output [OF len(2) len(2), of "track_example\<lparr>isPlaying := False\<rparr>"]
    by (simp add: Let_def eval_nat_numeral)
  show ?thesis using 1 2 3 by blast
qed

section \<open>Properties of the engine\<close>

subsection \<open>A failed model load\<close>

lemma doLoadModel_failure:
  assumes "CreateFromFile na path = None"
  shows "m_ready (doLoadModel na rt path ml) = False"
    and "m_modelPath (doLoadModel na rt path ml) = []"
  using assms by (simp_all add: doLoadModel_def Let_def)

lemma failed_load_general:
  assumes "slot = 0 \<or> slot = 1"
    and "CreateFromFile na p = None"
    and "m_workerRunning (at2 (m_modelSlots e) slot)"
  shows "let e' = worker_round na rt slot (Engine_loadModelAsync slot p e)
         in isModelReady slot e' = False \<and>
            Engine_getModelPath slot e' = p \<and>
            ModelLoader_getModelPath (at2 (m_modelSlots e') slot) = []"
proof -
  obtain a b where slots: "m_modelSlots e = Array2 a b" by (cases "m_modelSlots e")
  obtain c d where paths: "m_modelPaths e = Array2 c d" by (cases "m_modelPaths e")
  show ?thesis
    using assms
    by (auto simp: Let_def worker_round_def Engine_loadModelAsync_def isModelReady_def
        Engine_getModelPath_def ModelLoader_getModelPath_def isReady_def slots paths
        workerThread_round_def ModelLoader_loadModelAsync_def doLoadModel_failure)
qed

text \<open>
  Claim C1, evaluated on the code. A load of slot 0 from a path no model can be
  constructed from, once the worker has processed it, leaves the slot unready and the
  loader's own path empty, but \<open>Engine::getModelPath(0)\<close> still returns the requested
  path: \<open>Engine::loadModelAsync\<close> records the path in \<open>m_modelPaths\<close>, and the failing load
  does not clear that copy (\<open>Engine::unloadModel\<close> does, see
  \<open>unload_clears_engine_path\<close>).
\<close>

theorem failed_load_leaves_engine_path:
  "isModelReady 0
     (worker_round no_model_library [] 0 (Engine_loadModelAsync 0 ''missing.nam'' engine_example))
     = False \<and>
   Engine_getModelPath 0
     (worker_round no_model_library [] 0 (Engine_loadModelAsync 0 ''missing.nam'' engine_example))
     = ''missing.nam'' \<and>
   ModelLoader_getModelPath (at2 (m_modelSlots
     (worker_round no_model_library [] 0 (Engine_loadModelAsync 0 ''missing.nam'' engine_example))) 0)
     = []"
proof -
  have 1: "CreateFromFile no_model_library ''missing.nam'' = None"
    by (simp add: no_model_library_def)
  have 2: "m_workerRunning (at2 (m_modelSlots engine_example) 0)"
    by (simp add: engine_example_def Engine_new_def ModelLoader_new_def)
  show ?thesis
    using failed_load_general [of 0 no_model_library "''missing.nam''" engine_example "[]", OF _ 1 2]
    by (simp add: Let_def)
qed

lemma unload_clears_engine_path:
  assumes "slot = 0 \<or> slot = 1"
  shows "Engine_getModelPath slot (Engine_unloadModel rt slot e) = [] \<and>
         isModelReady slot (Engine_unloadModel rt slot e) = False"
proof -
  obtain a b where slots: "m_modelSlots e = Array2 a b" by (cases "m_modelSlots e")
  obtain c d where paths: "m_modelPaths e = Array2 c d" by (cases "m_modelPaths e")
  show ?thesis
    using assms
    by (auto simp: Engine_unloadModel_def Engine_getModelPath_def isModelReady_def isReady_def
        ModelLoader_unloadModel_def Let_def slots paths)
qed

subsection \<open>Guards of process and processStereo\<close>

lemma memcpy_take: "n \<le> length src \<Longrightarrow> take n (memcpy dst src n) = take n src"
  by (simp add: memcpy_def)

lemma memcpy_drop: "n \<le> length src \<Longrightarrow> drop n (memcpy dst src n) = drop n dst"
  by (simp add: memcpy_def)

lemma memcpy_length: "n \<le> length src \<Longrightarrow> n \<le> length dst \<Longrightarrow> length (memcpy dst src n) = length dst"
  by (simp add: memcpy_def)

lemma block_too_long_iff:
  assumes "0 \<le> b" "b < 2 ^ 31"
  shows "((word_of_int b :: size_t) < numSamples) = (b < int (unat numSamples))"
proof -
  have "uint (word_of_int b :: size_t) = b"
    using assms by (simp add: uint_word_of_int take_bit_int_eq_self)
  then show ?thesis by (simp add: word_less_def)
qed

text \<open>
  Claim C6. For a block longer than the maximum block size the engine was constructed
  with, \<open>process\<close> and \<open>processStereo\<close> add 1 to the xrun counter (a \<^verbatim>\<open>uint32_t\<close>, so the
  count itself grows by one short of its wrap-around) and change nothing else of the
  engine; the first \<open>numSamples\<close> samples of each output buffer are those of the
  corresponding input buffer, and the rest of the output buffer is untouched. When
  \<open>processStereo\<close> is given no right input, the right output receives the left input.
  This holds whatever the processing graph is.
\<close>

theorem oversized_block_passes_through:
  assumes "0 \<le> m_bufferSize e" and "m_bufferSize e < 2 ^ 31"
    and "m_bufferSize e < int (unat numSamples)"
    and "unat numSamples \<le> length input" and "unat numSamples \<le> length inputL"
    and "unat numSamples \<le> length inputR"
  shows "let n = unat numSamples;
             r = Engine_process graph input output numSamples e;
             rs = processStereo graphS inputL (Some inputR) outputL (Some outputR) numSamples e;
             rm = processStereo graphS inputL None outputL (Some outputR) numSamples e
         in fst r = e\<lparr>m_xrunCount := m_xrunCount e + 1\<rparr> \<and>
            take n (snd r) = take n input \<and> drop n (snd r) = drop n output \<and>
            fst rs = e\<lparr>m_xrunCount := m_xrunCount e + 1\<rparr> \<and>
            take n (fst (snd rs)) = take n inputL \<and> drop n (fst (snd rs)) = drop n outputL \<and>
            map_option (take n) (snd (snd rs)) = Some (take n inputR) \<and>
            map_option (drop n) (snd (snd rs)) = Some (drop n outputR) \<and>
            fst rm = e\<lparr>m_xrunCount := m_xrunCount e + 1\<rparr> \<and>
            take n (fst (snd rm)) = take n inputL \<and>
            map_option (take n) (snd (snd rm)) = Some (take n inputL) \<and>
            (unat (getXrunCount e) < 2 ^ 32 - 1 \<longrightarrow>
               unat (getXrunCount (fst r)) = unat (getXrunCount e) + 1 \<and>
               unat (getXrunCount (fst rs)) = unat (getXrunCount e) + 1)"
proof -
  have big: "(word_of_int (m_bufferSize e) :: size_t) < numSamples"
    using block_too_long_iff [OF assms(1,2), of numSamples] assms(3) by simp
  have cnt: "unat (getXrunCount e) < 2 ^ 32 - 1 \<longrightarrow>
               unat (m_xrunCount e + 1) = unat (getXrunCount e) + 1"
    by (simp add: getXrunCount_def unat_word_ariths)
  show ?thesis
    using big cnt assms(4-6)
    by (simp add: Let_def Engine_process_def processStereo_def copy_through_def getXrunCount_def
        memcpy_take memcpy_drop)
qed

text \<open>
  Claim C7. For a block no longer than the maximum block size, when the bypass cell is
  true, \<open>process\<close> and \<open>processStereo\<close> leave the engine unchanged and the first
  \<open>numSamples\<close> samples of each output buffer are those of the corresponding input
  buffer, whatever the other cells hold and whatever the processing graph is.
\<close>

theorem bypass_copies_input:
  assumes "0 \<le> m_bufferSize e" and "m_bufferSize e < 2 ^ 31"
    and "int (unat numSamples) \<le> m_bufferSize e"
    and "m_bypass e"
    and "unat numSamples \<le> length input" and "unat numSamples \<le> length inputL"
    and "unat numSamples \<le> length inputR"
  shows "let n = unat numSamples;
             r = Engine_process graph input output numSamples e;
             rs = processStereo graphS inputL (Some inputR) outputL (Some outputR) numSamples e;
             rm = processStereo graphS inputL None outputL (Some outputR) numSamples e
         in fst r = e \<and>
            take n (snd r) = take n input \<and> drop n (snd r) = drop n output \<and>
            fst rs = e \<and>
            take n (fst (snd rs)) = take n inputL \<and> drop n (fst (snd rs)) = drop n outputL \<and>
            map_option (take n) (snd (snd rs)) = Some (take n inputR) \<and>
            map_option (drop n) (snd (snd rs)) = Some (drop n outputR) \<and>
            fst rm = e \<and>
            take n (fst (snd rm)) = take n inputL \<and>
            map_option (take n) (snd (snd rm)) = Some (take n inputL)"
proof -
  have fits: "\<not> (word_of_int (m_bufferSize e) :: size_t) < numSamples"
    using block_too_long_iff [OF assms(1,2), of numSamples] assms(3) by simp
  show ?thesis
    using fits assms(4-7)
    by (simp add: Let_def Engine_process_def processStereo_def copy_through_def
        memcpy_take memcpy_drop)
qed

lemma engine_example_fields:
  "m_bufferSize engine_example = 4" "m_bypass engine_example = False"
  "m_xrunCount engine_example = 0"
  by (simp_all add: engine_example_def Engine_new_def)

theorem oversized_block_passes_through_witness:
  "(let r = Engine_process idle_graph [1, 2, 3, 4, 5] [0, 0, 0, 0, 0, 0] 5 engine_example
    in fst r = engine_example\<lparr>m_xrunCount := 1\<rparr> \<and>
       take 5 (snd r) = [1, 2, 3, 4, 5] \<and> drop 5 (snd r) = [0] \<and>
       unat (getXrunCount (fst r)) = unat (getXrunCount engine_example) + 1) \<and>
   (let rs = processStereo idle_graph_stereo [1, 2, 3, 4, 5] (Some [6, 7, 8, 9, 10])
               [0, 0, 0, 0, 0] (Some [0, 0, 0, 0, 0]) 5 engine_example
    in fst rs = engine_example\<lparr>m_xrunCount := 1\<rparr> \<and>
       take 5 (fst (snd rs)) = [1, 2, 3, 4, 5] \<and>
       map_option (take 5) (snd (snd rs)) = Some [6, 7, 8, 9, 10])"
proof -
  have h: "0 \<le> m_bufferSize engine_example" "m_bufferSize engine_example < 2 ^ 31"
    "m_bufferSize engine_example < int (unat (5 :: size_t))"
    "unat (5 :: size_t) \<le> length [1, 2, 3, 4, 5 :: int]"
    "unat (5 :: size_t) \<le> length [6, 7, 8, 9, 10 :: int]"
    by (simp_all add: engine_example_fields)
  have x: "unat (getXrunCount engine_example) < 2 ^ 32 - 1"
    by (simp add: getXrunCount_def engine_example_fields)
  show ?thesis
    using oversized_block_passes_through [OF h(1,2,3,4,4,5), of idle_graph "[0, 0, 0, 0, 0, 0]"
        idle_graph_stereo "[0, 0, 0, 0, 0]" "[0, 0, 0, 0, 0]"] x
    by (auto simp: Let_def engine_example_fields)
qed

theorem bypass_copies_input_witness:
  "(let r = Engine_process idle_graph [1, 2, 3] [0, 0, 0, 0] 3 (setBypass True engine_example)
    in fst r = setBypass True engine_example \<and>
       take 3 (snd r) = [1, 2, 3] \<and> drop 3 (snd r) = [0]) \<and>
   (let rs = processStereo idle_graph_stereo [1, 2, 3] (Some [6, 7, 8]) [0, 0, 0] (Some [0, 0, 0]) 3
               (setBypass True engine_example)
    in fst rs = setBypass True engine_example \<and>
       take 3 (fst (snd rs)) = [1, 2, 3] \<and>
       map_option (take 3) (snd (snd rs)) = Some [6, 7, 8])"
proof -
  let ?e = "setBypass True engine_example"
  have h: "0 \<le> m_bufferSize ?e" "m_bufferSize ?e < 2 ^ 31"
    "int (unat (3 :: size_t)) \<le> m_bufferSize ?e"
    "m_bypass ?e"
    "unat (3 :: size_t) \<le> length [1, 2, 3 :: int]"
    "unat (3 :: size_t) \<le> length [6, 7, 8 :: int]"
    by (simp_all add: engine_example_fields setBypass_def)
  show ?thesis
    using bypass_copies_input [OF h(1,2,3,4,5,5,6), of idle_graph "[0, 0, 0, 0]"
        idle_graph_stereo "[0, 0, 0]" "[0, 0, 0]"]
    by (auto simp: Let_def)
qed

subsection \<open>The Stereo-to-Mono mix cells\<close>

lemma clamp_unit_Finite: "std_max (Finite 0) (std_min (Finite 1) (Finite v)) = Finite (max 0 (min 1 v))"
  by (simp add: std_min_def std_max_def max_def min_def)

lemma clamp_unit_in_unit: "in_unit (std_max (Finite 0) (std_min (Finite 1) level))"
  by (cases level) (simp_all add: std_min_def std_max_def)

lemma apply_op_mixL:
  "m_stereo2MonoMixL (apply_op g gs na op e) =
     (case op of OpSetStereo2MonoMixL v \<Rightarrow> std_max (Finite 0) (std_min (Finite 1) v)
               | _ \<Rightarrow> m_stereo2MonoMixL e)"
  by (cases op)
     (simp_all add: setStereo2MonoMixL_def setStereo2MonoMixR_def setStereoMode_def setBypass_def
       setBypassModel_def setBypassModelL_def setBypassModelR_def setNormalize_def
       setActiveModel_def setActiveModelL_def setActiveModelR_def Engine_loadModelAsync_def
       worker_round_def Engine_unloadModel_def resetXrunCount_def Engine_process_def
       processStereo_def store_graph_state_def Let_def)

lemma apply_op_mixR:
  "m_stereo2MonoMixR (apply_op g gs na op e) =
     (case op of OpSetStereo2MonoMixR v \<Rightarrow> std_max (Finite 0) (std_min (Finite 1) v)
               | _ \<Rightarrow> m_stereo2MonoMixR e)"
  by (cases op)
     (simp_all add: setStereo2MonoMixL_def setStereo2MonoMixR_def setStereoMode_def setBypass_def
       setBypassModel_def setBypassModelL_def setBypassModelR_def setNormalize_def
       setActiveModel_def setActiveModelL_def setActiveModelR_def Engine_loadModelAsync_def
       worker_round_def Engine_unloadModel_def resetXrunCount_def Engine_process_def
       processStereo_def store_graph_state_def Let_def)

lemma apply_op_mix_in_unit:
  assumes "in_unit (m_stereo2MonoMixL e)" "in_unit (m_stereo2MonoMixR e)"
  shows "in_unit (m_stereo2MonoMixL (apply_op g gs na op e))"
    and "in_unit (m_stereo2MonoMixR (apply_op g gs na op e))"
  using assms
  by (simp_all add: apply_op_mixL apply_op_mixR clamp_unit_in_unit split: engine_op.split)

lemma run_ops_mix_in_unit:
  "in_unit (m_stereo2MonoMixL e) \<Longrightarrow> in_unit (m_stereo2MonoMixR e) \<Longrightarrow>
     in_unit (m_stereo2MonoMixL (run_ops g gs na ops e)) \<and>
     in_unit (m_stereo2MonoMixR (run_ops g gs na ops e))"
  unfolding run_ops_def
proof (induction ops arbitrary: e)
  case Nil
  then show ?case by simp
next
  case (Cons op ops)
  show ?case
    using Cons.IH [OF apply_op_mix_in_unit [OF Cons.prems, of g gs na op]] by simp
qed

text \<open>
  Claim C10. The Stereo-to-Mono mix cells hold values in \<open>[0, 1]\<close>: after any sequence of
  operations on a newly constructed engine both getters return a float in \<open>[0, 1]\<close>; the
  defaults are 0.5; \<open>setStereo2MonoMixL(v)\<close> and \<open>setStereo2MonoMixR(v)\<close> store \<open>v\<close>
  clamped to \<open>[0, 1]\<close> for a finite \<open>v\<close> and a value in \<open>[0, 1]\<close> for every float (1 for
  a NaN and for plus infinity, 0 for minus infinity).
\<close>

theorem stereo2mono_mix_in_unit_interval:
  "in_unit (getStereo2MonoMixL (run_ops g gs na ops
      (Engine_new sampleRate bufferSize ring dsp :: ('a, 'm, 'd) Engine))) \<and>
   in_unit (getStereo2MonoMixR (run_ops g gs na ops
      (Engine_new sampleRate bufferSize ring dsp :: ('a, 'm, 'd) Engine))) \<and>
   getStereo2MonoMixL (Engine_new sampleRate bufferSize ring dsp :: ('a, 'm, 'd) Engine) = Finite (1 / 2) \<and>
   getStereo2MonoMixR (Engine_new sampleRate bufferSize ring dsp :: ('a, 'm, 'd) Engine) = Finite (1 / 2) \<and>
   getStereo2MonoMixL (setStereo2MonoMixL (Finite v) e) = Finite (max 0 (min 1 v)) \<and>
   getStereo2MonoMixR (setStereo2MonoMixR (Finite v) e) = Finite (max 0 (min 1 v)) \<and>
   in_unit (getStereo2MonoMixL (setStereo2MonoMixL level e)) \<and>
   in_unit (getStereo2MonoMixR (setStereo2MonoMixR level e)) \<and>
   getStereo2MonoMixL (setStereo2MonoMixL NaN e) = Finite 1 \<and>
   getStereo2MonoMixL (setStereo2MonoMixL PlusInf e) = Finite 1 \<and>
   getStereo2MonoMixL (setStereo2MonoMixL MinusInf e) = Finite 0"
proof -
  let ?e0 = "Engine_new sampleRate bufferSize ring dsp :: ('a, 'm, 'd) Engine"
  have init: "in_unit (m_stereo2MonoMixL ?e0)" "in_unit (m_stereo2MonoMixR ?e0)"
    by (simp_all add: Engine_new_def)
  have run: "in_unit (m_stereo2MonoMixL (run_ops g gs na ops ?e0)) \<and>
             in_unit (m_stereo2MonoMixR (run_ops g gs na ops ?e0))"
    using init by (rule run_ops_mix_in_unit)
  have setters:
    "getStereo2MonoMixL (setStereo2MonoMixL (Finite v) e) = Finite (max 0 (min 1 v))"
    "getStereo2MonoMixR (setStereo2MonoMixR (Finite v) e) = Finite (max 0 (min 1 v))"
    "in_unit (getStereo2MonoMixL (setStereo2MonoMixL level e))"
    "in_unit (getStereo2MonoMixR (setStereo2MonoMixR level e))"
    by (simp_all add: getStereo2MonoMixL_def getStereo2MonoMixR_def setStereo2MonoMixL_def
        setStereo2MonoMixR_def clamp_unit_Finite clamp_unit_in_unit)
  have special:
    "getStereo2MonoMixL (setStereo2MonoMixL NaN e) = Finite 1"
    "getStereo2MonoMixL (setStereo2MonoMixL PlusInf e) = Finite 1"
    "getStereo2MonoMixL (setStereo2MonoMixL MinusInf e) = Finite 0"
    by (simp_all add: getStereo2MonoMixL_def setStereo2MonoMixL_def std_min_def std_max_def)
  have dflt: "getStereo2MonoMixL ?e0 = Finite (1 / 2)" "getStereo2MonoMixR ?e0 = Finite (1 / 2)"
    by (simp_all add: getStereo2MonoMixL_def getStereo2MonoMixR_def Engine_new_def)
  show ?thesis
    using run setters special dflt
    by (simp add: getStereo2MonoMixL_def getStereo2MonoMixR_def)
qed

end
